theory Spec2Isabelle
  imports Main
begin

section \<open>JavaScript strings\<close>

text \<open>
  A JavaScript string is a sequence of UTF-16 code units. A code unit is modelled by its
  number; no operation of the program does arithmetic on a code unit beyond comparing it
  with a constant and adding 32 to a capital ASCII letter, so no wrap-around occurs.
  \<open>js\<close> writes a string of the model as an ASCII literal.
\<close>

type_synonym jschar = nat
type_synonym jsstring = "jschar list"

definition js :: "string \<Rightarrow> jsstring" where
  "js s = map of_char s"

abbreviation dash :: jschar where "dash \<equiv> 0x2D"
abbreviation underscore :: jschar where "underscore \<equiv> 0x5F"
abbreviation colon :: jschar where "colon \<equiv> 0x3A"

text \<open>
  White space as \<open>String.prototype.trim\<close> and the class \<open>\s\<close> of a regular
  expression read it: the WhiteSpace and LineTerminator code points of ECMAScript
  (TAB, LF, VT, FF, CR, SP, NBSP, U+1680, U+2000 to U+200A, U+2028, U+2029, U+202F,
  U+205F, U+3000 and U+FEFF).
\<close>

definition isWhiteSpace :: "jschar \<Rightarrow> bool" where
  "isWhiteSpace c =
     (c \<in> {0x09, 0x0A, 0x0B, 0x0C, 0x0D, 0x20, 0xA0, 0x1680, 0x2028, 0x2029, 0x202F,
            0x205F, 0x3000, 0xFEFF}
      \<or> (0x2000 \<le> c \<and> c \<le> 0x200A))"

definition trim :: "jsstring \<Rightarrow> jsstring" where
  "trim s = rev (dropWhile isWhiteSpace (rev (dropWhile isWhiteSpace s)))"

definition isDigit :: "jschar \<Rightarrow> bool" where
  "isDigit c = (0x30 \<le> c \<and> c \<le> 0x39)"

definition isAsciiUpper :: "jschar \<Rightarrow> bool" where
  "isAsciiUpper c = (0x41 \<le> c \<and> c \<le> 0x5A)"

definition asciiLower :: "jschar \<Rightarrow> jschar" where
  "asciiLower c = (if isAsciiUpper c then c + 0x20 else c)"

text \<open>
  \<open>String.prototype.toLowerCase\<close> maps every ASCII code unit on its own: a capital
  letter to its small letter, anything else to itself. What it does to a code unit
  outside ASCII is fixed by the Unicode case tables of the JavaScript engine, which are
  no part of the repository: they are the parameter \<open>U\<close>, which gives the code units
  written for a non-ASCII code unit from the code units before it, the unit itself and
  the code units after it (the mapping may depend on the context, may write several code
  units, and may write ASCII ones, as for the Kelvin sign).
\<close>

type_synonym caseTable = "jsstring \<Rightarrow> jschar \<Rightarrow> jsstring \<Rightarrow> jsstring"

fun lowerFrom :: "caseTable \<Rightarrow> jsstring \<Rightarrow> jsstring \<Rightarrow> jsstring" where
  "lowerFrom U pre [] = []"
| "lowerFrom U pre (c # cs) =
     (if c < 0x80 then [asciiLower c] else U pre c cs) @ lowerFrom U (pre @ [c]) cs"

definition toLowerCase :: "caseTable \<Rightarrow> jsstring \<Rightarrow> jsstring" where
  "toLowerCase U s = lowerFrom U [] s"

text \<open>A case table that leaves every code unit outside ASCII as it is.\<close>

definition plainTable :: caseTable where
  "plainTable pre c post = [c]"

text \<open>
  \<open>s.replace(/[class]+/g, r)\<close>: every maximal run of code units of the class is
  replaced by \<open>r\<close>.
\<close>

function replaceRuns :: "(jschar \<Rightarrow> bool) \<Rightarrow> jsstring \<Rightarrow> jsstring \<Rightarrow> jsstring" where
  "replaceRuns P r [] = []"
| "replaceRuns P r (c # cs) =
     (if P c then r @ replaceRuns P r (dropWhile P cs) else c # replaceRuns P r cs)"
  by pat_completeness auto
termination
  by (relation "measure (\<lambda>(P, r, s). length s)")
     (auto simp: length_dropWhile_le le_imp_less_Suc)

section \<open>The Event model: slugify\<close>

text \<open>The class \<open>[a-z0-9-]\<close>.\<close>

definition isSlugChar :: "jschar \<Rightarrow> bool" where
  "isSlugChar c = ((0x61 \<le> c \<and> c \<le> 0x7A) \<or> isDigit c \<or> c = dash)"

text \<open>
  \<open>s.replace(/^-|-$/g, '')\<close>: a dash at the start of the string is removed, and a
  dash at the end of the string is removed unless the first match has consumed it.
\<close>

definition stripEdgeDashes :: "jsstring \<Rightarrow> jsstring" where
  "stripEdgeDashes s =
     (let s1 = (case s of [] \<Rightarrow> [] | c # cs \<Rightarrow> if c = dash then cs else s)
      in if s1 \<noteq> [] \<and> last s1 = dash then butlast s1 else s1)"

definition slugify :: "caseTable \<Rightarrow> jsstring \<Rightarrow> jsstring" where
  "slugify U v =
     stripEdgeDashes
       (replaceRuns (\<lambda>c. c = dash) [dash]
         (filter isSlugChar
           (replaceRuns (\<lambda>c. c = underscore \<or> isWhiteSpace c) [dash]
             (trim (toLowerCase U v)))))"

text \<open>The shape of a slug: no two dashes in a row, no dash at either end.\<close>

fun noDoubleDash :: "jsstring \<Rightarrow> bool" where
  "noDoubleDash (a # b # cs) = (\<not> (a = dash \<and> b = dash) \<and> noDoubleDash (b # cs))"
| "noDoubleDash cs = True"

definition dashAtEdge :: "jsstring \<Rightarrow> bool" where
  "dashAtEdge s = (s \<noteq> [] \<and> (hd s = dash \<or> last s = dash))"

section \<open>Regular expressions\<close>

text \<open>
  The regular expressions of the program are sequences, alternatives and repetitions of
  character classes, anchored at both ends (\<open>^...$\<close>, no flags), so
  \<open>RegExp.prototype.test\<close> asks whether the whole string matches. They are written as
  terms of \<open>rx\<close> and matched by derivatives.
\<close>

datatype rx =
    Never
  | Empty
  | OneOf "jschar \<Rightarrow> bool"
  | Seq rx rx
  | Alt rx rx
  | Star rx

fun nullable :: "rx \<Rightarrow> bool" where
  "nullable Never = False"
| "nullable Empty = True"
| "nullable (OneOf P) = False"
| "nullable (Seq r s) = (nullable r \<and> nullable s)"
| "nullable (Alt r s) = (nullable r \<or> nullable s)"
| "nullable (Star r) = True"

fun deriv :: "jschar \<Rightarrow> rx \<Rightarrow> rx" where
  "deriv c Never = Never"
| "deriv c Empty = Never"
| "deriv c (OneOf P) = (if P c then Empty else Never)"
| "deriv c (Seq r s) =
     (if nullable r then Alt (Seq (deriv c r) s) (deriv c s) else Seq (deriv c r) s)"
| "deriv c (Alt r s) = Alt (deriv c r) (deriv c s)"
| "deriv c (Star r) = Seq (deriv c r) (Star r)"

fun rxTest :: "rx \<Rightarrow> jsstring \<Rightarrow> bool" where
  "rxTest r [] = nullable r"
| "rxTest r (c # cs) = rxTest (deriv c r) cs"

text \<open>\<open>r+\<close>, \<open>r?\<close> and a single given character.\<close>

definition Plus :: "rx \<Rightarrow> rx" where
  "Plus r = Seq r (Star r)"

definition Opt :: "rx \<Rightarrow> rx" where
  "Opt r = Alt r Empty"

definition Chr :: "jschar \<Rightarrow> rx" where
  "Chr a = OneOf (\<lambda>c. c = a)"

text \<open>The strings a regular expression stands for.\<close>

definition conc :: "jsstring set \<Rightarrow> jsstring set \<Rightarrow> jsstring set" where
  "conc A B = {u @ v | u v. u \<in> A \<and> v \<in> B}"

inductive_set star :: "jsstring set \<Rightarrow> jsstring set" for A :: "jsstring set" where
  star_nil: "[] \<in> star A"
| star_app: "u \<in> A \<Longrightarrow> v \<in> star A \<Longrightarrow> u @ v \<in> star A"

fun lang :: "rx \<Rightarrow> jsstring set" where
  "lang Never = {}"
| "lang Empty = {[]}"
| "lang (OneOf P) = {[c] | c. P c}"
| "lang (Seq r s) = conc (lang r) (lang s)"
| "lang (Alt r s) = lang r \<union> lang s"
| "lang (Star r) = star (lang r)"

section \<open>Numbers and their decimal strings\<close>

abbreviation zero :: jschar where "zero \<equiv> 0x30"

text \<open>\<open>Number(s)\<close> on a string of decimal digits.\<close>

definition toNumber :: "jsstring \<Rightarrow> nat" where
  "toNumber s = foldl (\<lambda>n c. 10 * n + (c - zero)) 0 s"

text \<open>\<open>n.toString()\<close> on a natural number.\<close>

function natToString :: "nat \<Rightarrow> jsstring" where
  "natToString n = (if n < 10 then [zero + n] else natToString (n div 10) @ [zero + n mod 10])"
  by pat_completeness auto
termination
  by (relation "measure id") auto

declare natToString.simps [simp del]

definition padStart :: "nat \<Rightarrow> jschar \<Rightarrow> jsstring \<Rightarrow> jsstring" where
  "padStart n c s = replicate (n - length s) c @ s"

section \<open>The errors of the hooks\<close>

text \<open>
  The errors the hooks pass to \<open>next\<close>, with the message each carries in the source.
  \<open>Thrown\<close> is an error raised by the engine or by the database driver inside the
  \<open>try\<close> block, with the message it brings. \<open>ValidationError\<close> is the error with
  which \<open>save\<close> is refused when a validator of the schema fails: it carries the name
  of the model and, for each failing path, the message of the validator that failed.
\<close>

datatype field =
    Title | Description | Overview | Image | Venue | Location | Date | Time | Mode
  | Audience | Organizer | Slug

fun fieldName :: "field \<Rightarrow> string" where
  "fieldName Title = ''title''"
| "fieldName Description = ''description''"
| "fieldName Overview = ''overview''"
| "fieldName Image = ''image''"
| "fieldName Venue = ''venue''"
| "fieldName Location = ''location''"
| "fieldName Date = ''date''"
| "fieldName Time = ''time''"
| "fieldName Mode = ''mode''"
| "fieldName Audience = ''audience''"
| "fieldName Organizer = ''organizer''"
| "fieldName Slug = ''slug''"

datatype error =
    FieldRequired field
  | AgendaRequired
  | TagsRequired
  | EmptySlug
  | InvalidEventDate
  | InvalidTimeFormat
  | InvalidTimeRange
  | InvalidEmail
  | MissingEvent
  | Thrown string
  | ValidationError string "(string \<times> string) list"

fun joinMessages :: "(string \<times> string) list \<Rightarrow> string" where
  "joinMessages [] = []"
| "joinMessages [(p, m)] = p @ '': '' @ m"
| "joinMessages ((p, m) # e # es) = p @ '': '' @ m @ '', '' @ joinMessages (e # es)"

fun message :: "error \<Rightarrow> string" where
  "message (FieldRequired f) =
     ''Field '' @ [CHR 0x22] @ fieldName f @ [CHR 0x22] @ '' is required and cannot be empty''"
| "message AgendaRequired =
     ''Field '' @ [CHR 0x22] @ ''agenda'' @ [CHR 0x22] @ '' is required and cannot be empty''"
| "message TagsRequired =
     ''Field '' @ [CHR 0x22] @ ''tags'' @ [CHR 0x22] @ '' is required and cannot be empty''"
| "message EmptySlug = ''Generated slug is empty; check event title''"
| "message InvalidEventDate = ''Invalid event date''"
| "message InvalidTimeFormat = ''Invalid event time; expected HH:mm''"
| "message InvalidTimeRange = ''Invalid event time; hour must be 0-23 and minutes 0-59''"
| "message InvalidEmail = ''Invalid email address''"
| "message MissingEvent = ''Referenced event does not exist''"
| "message (Thrown m) = m"
| "message (ValidationError name es) = name @ '' validation failed: '' @ joinMessages es"

section \<open>The Event model: normalizeTime\<close>

text \<open>The regular expression \<open>/^(\d{1,2}):(\d{2})(?::(\d{2}))?$/\<close>.\<close>

definition digit :: rx where
  "digit = OneOf isDigit"

text \<open>\<open>\d{1,2}\<close> and \<open>\d{2}\<close>\<close>

definition oneOrTwoDigits :: rx where
  "oneOrTwoDigits = Seq digit (Opt digit)"

definition twoDigits :: rx where
  "twoDigits = Seq digit digit"

definition timeRegex :: rx where
  "timeRegex =
     Seq oneOrTwoDigits
       (Seq (Chr colon) (Seq twoDigits (Opt (Seq (Chr colon) twoDigits))))"

text \<open>
  When the expression matches, its first group is the run of digits the string starts
  with and its second group is the two code units after the colon that follows.
\<close>

definition hoursGroup :: "jsstring \<Rightarrow> jsstring" where
  "hoursGroup s = takeWhile isDigit s"

definition minutesGroup :: "jsstring \<Rightarrow> jsstring" where
  "minutesGroup s = take 2 (drop (length (hoursGroup s) + 1) s)"

definition normalizeTime :: "jsstring \<Rightarrow> error + jsstring" where
  "normalizeTime v =
     (let trimmed = trim v in
      if \<not> rxTest timeRegex trimmed then Inl InvalidTimeFormat
      else
        let hours = toNumber (hoursGroup trimmed);
            minutes = toNumber (minutesGroup trimmed)
        in if hours < 0 \<or> hours > 23 \<or> minutes < 0 \<or> minutes > 59 then Inl InvalidTimeRange
           else Inr (padStart 2 zero (natToString hours) @ [colon] @
                     padStart 2 zero (natToString minutes)))"

text \<open>The written form \<open>HH:mm\<close> of a time of day, hours 00 to 23 and minutes 00 to 59.\<close>

definition isHHmm :: "jsstring \<Rightarrow> bool" where
  "isHHmm s =
     (length s = 5 \<and> isDigit (s ! 0) \<and> isDigit (s ! 1) \<and> s ! 2 = colon \<and> isDigit (s ! 3) \<and>
      isDigit (s ! 4) \<and> toNumber (take 2 s) \<le> 23 \<and> toNumber (drop 3 s) \<le> 59)"

text \<open>
  The three forms of a time that the specification lists: \<open>H:mm\<close>, \<open>HH:mm\<close> and
  \<open>HH:mm:ss\<close>.
\<close>

definition listedTimeForm :: "jsstring \<Rightarrow> bool" where
  "listedTimeForm s =
     ((length s = 4 \<and> isDigit (s ! 0) \<and> s ! 1 = colon \<and> isDigit (s ! 2) \<and> isDigit (s ! 3)) \<or>
      (length s = 5 \<and> isDigit (s ! 0) \<and> isDigit (s ! 1) \<and> s ! 2 = colon \<and> isDigit (s ! 3) \<and>
       isDigit (s ! 4)) \<or>
      (length s = 8 \<and> isDigit (s ! 0) \<and> isDigit (s ! 1) \<and> s ! 2 = colon \<and> isDigit (s ! 3) \<and>
       isDigit (s ! 4) \<and> s ! 5 = colon \<and> isDigit (s ! 6) \<and> isDigit (s ! 7)))"

section \<open>The Event model: normalizeDate\<close>

text \<open>
  A \<open>Date\<close> holds a time value: a whole number of milliseconds since 1970-01-01 UTC
  of magnitude at most 8.64e15, or NaN (here \<open>None\<close>). The calendar functions are
  those of ECMAScript: \<open>Day\<close>, \<open>DayFromYear\<close>, \<open>YearFromTime\<close> (the largest year
  that starts at or before the time), \<open>InLeapYear\<close>, \<open>MonthFromTime\<close> and
  \<open>DateFromTime\<close>.
\<close>

definition msPerDay :: int where
  "msPerDay = 86400000"

definition DayFromYear :: "int \<Rightarrow> int" where
  "DayFromYear y =
     365 * (y - 1970) + (y - 1969) div 4 - (y - 1901) div 100 + (y - 1601) div 400"

definition InLeapYear :: "int \<Rightarrow> bool" where
  "InLeapYear y = ((y mod 4 = 0 \<and> y mod 100 \<noteq> 0) \<or> y mod 400 = 0)"

function yearDown :: "int \<Rightarrow> int \<Rightarrow> int" where
  "yearDown day y = (if DayFromYear y \<le> day then y else yearDown day (y - 1))"
  by pat_completeness auto
termination
proof (relation "measure (\<lambda>(day, y). nat (DayFromYear y - day))")
  show "wf (measure (\<lambda>(day, y). nat (DayFromYear y - day)))" by simp
next
  fix day y :: int
  assume "\<not> DayFromYear y \<le> day"
  moreover have "DayFromYear (y - 1) < DayFromYear y"
  proof -
    have a: "(y - 1 - 1969) div 4 \<le> (y - 1969) div 4" by (rule zdiv_mono1) simp_all
    have b: "(y - 1901) div 100 \<le> (y - 1 - 1901) div 100 + 1" by linarith
    have c: "(y - 1 - 1601) div 400 \<le> (y - 1601) div 400" by (rule zdiv_mono1) simp_all
    have g: "p' \<le> p \<Longrightarrow> q \<le> q' + 1 \<Longrightarrow> r' \<le> r \<Longrightarrow>
        365 * (y - 1 - 1970) + p' - q' + r' < 365 * (y - 1970) + p - q + r"
      for p p' q q' r r' :: int
      by (simp add: algebra_simps)
    show ?thesis unfolding DayFromYear_def using a b c by (rule g)
  qed
  ultimately show "((day, y - 1), (day, y)) \<in> measure (\<lambda>(day, y). nat (DayFromYear y - day))"
    by simp
qed

declare yearDown.simps [simp del]

text \<open>
  The year of a day number, searched downwards from a year that starts after the day:
  a year has at least 365 and at most 366 days.
\<close>

definition YearFromDay :: "int \<Rightarrow> int" where
  "YearFromDay day = yearDown day (1970 + max (day div 365) (day div 366))"

text \<open>The day within the year on which each month starts (month 0 is January).\<close>

definition monthStart :: "bool \<Rightarrow> nat \<Rightarrow> int" where
  "monthStart leap m =
     (let l = (if leap then 1 else 0) in
      [0, 31, 59 + l, 90 + l, 120 + l, 151 + l, 181 + l, 212 + l, 243 + l, 273 + l,
       304 + l, 334 + l, 365 + l] ! m)"

definition MonthFromDay :: "bool \<Rightarrow> int \<Rightarrow> nat" where
  "MonthFromDay leap dayInYear =
     (if dayInYear < monthStart leap 1 then 0
      else if dayInYear < monthStart leap 2 then 1
      else if dayInYear < monthStart leap 3 then 2
      else if dayInYear < monthStart leap 4 then 3
      else if dayInYear < monthStart leap 5 then 4
      else if dayInYear < monthStart leap 6 then 5
      else if dayInYear < monthStart leap 7 then 6
      else if dayInYear < monthStart leap 8 then 7
      else if dayInYear < monthStart leap 9 then 8
      else if dayInYear < monthStart leap 10 then 9
      else if dayInYear < monthStart leap 11 then 10
      else 11)"

definition DateFromDay :: "bool \<Rightarrow> int \<Rightarrow> int" where
  "DateFromDay leap dayInYear =
     dayInYear - monthStart leap (MonthFromDay leap dayInYear) + 1"

text \<open>
  \<open>Date.prototype.toISOString\<close>: the year is written with four digits from 0 to 9999
  and with a sign and six digits otherwise.
\<close>

definition isoYear :: "int \<Rightarrow> jsstring" where
  "isoYear y =
     (if 0 \<le> y \<and> y \<le> 9999 then padStart 4 zero (natToString (nat y))
      else (if y < 0 then dash else 0x2B) # padStart 6 zero (natToString (nat \<bar>y\<bar>)))"

definition pad2 :: "int \<Rightarrow> jsstring" where
  "pad2 n = padStart 2 zero (natToString (nat n))"

definition toISOString :: "int \<Rightarrow> jsstring" where
  "toISOString t =
     (let day = t div msPerDay;
          ms = t mod msPerDay;
          y = YearFromDay day;
          dayInYear = day - DayFromYear y;
          leap = InLeapYear y
      in isoYear y @ [dash] @ pad2 (int (MonthFromDay leap dayInYear) + 1) @ [dash] @
         pad2 (DateFromDay leap dayInYear) @ [0x54] @
         pad2 (ms div 3600000) @ [colon] @ pad2 (ms div 60000 mod 60) @ [colon] @
         pad2 (ms div 1000 mod 60) @ [0x2E] @ padStart 3 zero (natToString (nat (ms mod 1000))) @
         [0x5A])"

text \<open>
  \<open>new Date(value)\<close> on a string. ECMAScript fixes the result for the date-only forms
  of its date-time format, \<open>YYYY-MM-DD\<close> and \<open>+YYYYYY-MM-DD\<close> or \<open>-YYYYYY-MM-DD\<close>
  with a month from 01 to 12 and a day of that month: midnight UTC of that day. What
  any other string parses to is left to the engine, which is no part of the repository:
  it is the parameter \<open>P\<close>, giving the time value, or \<open>None\<close> for an invalid date.
  \<open>TimeClip\<close> makes a time value beyond the range an invalid date.
\<close>

type_synonym dateParser = "jsstring \<Rightarrow> int option"

definition TimeClip :: "int \<Rightarrow> int option" where
  "TimeClip t = (if \<bar>t\<bar> > 8640000000000000 then None else Some t)"

definition utcDate :: "int \<Rightarrow> nat \<Rightarrow> nat \<Rightarrow> int option" where
  "utcDate y m d =
     (if 1 \<le> m \<and> m \<le> 12 \<and> 1 \<le> d \<and>
         int d \<le> monthStart (InLeapYear y) m - monthStart (InLeapYear y) (m - 1)
      then Some ((DayFromYear y + monthStart (InLeapYear y) (m - 1) + int d - 1) * msPerDay)
      else None)"

definition monthDay :: "jsstring \<Rightarrow> (nat \<times> nat) option" where
  "monthDay s =
     (if length s = 6 \<and> s ! 0 = dash \<and> isDigit (s ! 1) \<and> isDigit (s ! 2) \<and> s ! 3 = dash \<and>
         isDigit (s ! 4) \<and> isDigit (s ! 5)
      then Some (toNumber (take 2 (drop 1 s)), toNumber (drop 4 s))
      else None)"

definition isoDateOnly :: "jsstring \<Rightarrow> int option" where
  "isoDateOnly s =
     (if length s = 10 \<and> list_all isDigit (take 4 s) then
        (case monthDay (drop 4 s) of
           None \<Rightarrow> None
         | Some (m, d) \<Rightarrow> utcDate (int (toNumber (take 4 s))) m d)
      else if length s = 13 \<and> (hd s = 0x2B \<or> hd s = dash) \<and> list_all isDigit (take 6 (drop 1 s))
              \<and> \<not> (hd s = dash \<and> toNumber (take 6 (drop 1 s)) = 0) then
        (case monthDay (drop 7 s) of
           None \<Rightarrow> None
         | Some (m, d) \<Rightarrow>
             utcDate ((if hd s = dash then - 1 else 1) * int (toNumber (take 6 (drop 1 s)))) m d)
      else None)"

definition newDate :: "dateParser \<Rightarrow> jsstring \<Rightarrow> int option" where
  "newDate P s =
     (case isoDateOnly s of
        Some t \<Rightarrow> TimeClip t
      | None \<Rightarrow> (case P s of None \<Rightarrow> None | Some t \<Rightarrow> TimeClip t))"

text \<open>An engine that parses nothing but the forms above.\<close>

definition isoOnly :: dateParser where
  "isoOnly s = None"

text \<open>\<open>s.split('T')[0]\<close>: the part of the string before its first \<open>T\<close>.\<close>

definition beforeT :: "jsstring \<Rightarrow> jsstring" where
  "beforeT s = takeWhile (\<lambda>c. c \<noteq> 0x54) s"

definition normalizeDate :: "dateParser \<Rightarrow> jsstring \<Rightarrow> error + jsstring" where
  "normalizeDate P v =
     (case newDate P v of
        None \<Rightarrow> Inl InvalidEventDate
      | Some t \<Rightarrow> Inr (beforeT (toISOString t)))"

text \<open>The code units of a written date or time: digits, dash, plus sign and colon.\<close>

definition dateChar :: "jschar \<Rightarrow> bool" where
  "dateChar c = (isDigit c \<or> c = dash \<or> c = 0x2B \<or> c = colon)"

section \<open>The Event model: the pre-save hook\<close>

text \<open>
  An Event document as the hook sees it. A string path holds a string or nothing
  (\<open>None\<close>: \<open>undefined\<close> or \<open>null\<close>, whose \<open>typeof\<close> is not \<open>'string'\<close>); an array path
  holds an array of strings or nothing. \<open>modifiedPaths\<close> are the paths for which
  \<open>isModified\<close> answers true, and \<open>isNew\<close> says that the document has not been stored yet.
\<close>

record eventDoc =
  strPath :: "field \<Rightarrow> jsstring option"
  agenda :: "jsstring list option"
  tags :: "jsstring list option"
  isNew :: bool
  modifiedPaths :: "field set"

definition isModified :: "eventDoc \<Rightarrow> field \<Rightarrow> bool" where
  "isModified d f = (f \<in> modifiedPaths d)"

text \<open>
  An assignment \<open>this[f] = v\<close>. The document marks the path as modified when it is new
  or when the value differs from the one it holds.
\<close>

definition setField :: "eventDoc \<Rightarrow> field \<Rightarrow> jsstring \<Rightarrow> eventDoc" where
  "setField d f v =
     d\<lparr>strPath := (strPath d)(f \<mapsto> v),
       modifiedPaths :=
         (if isNew d \<or> strPath d f \<noteq> Some v then insert f (modifiedPaths d)
          else modifiedPaths d)\<rparr>"

definition requiredStringFields :: "field list" where
  "requiredStringFields =
     [Title, Description, Overview, Image, Venue, Location, Date, Time, Mode, Audience,
      Organizer]"

text \<open>The loop over the required string fields: it stops at the first field that fails.\<close>

fun trimFields :: "field list \<Rightarrow> eventDoc \<Rightarrow> error + eventDoc" where
  "trimFields [] d = Inr d"
| "trimFields (f # fs) d =
     (case strPath d f of
        None \<Rightarrow> Inl (FieldRequired f)
      | Some raw \<Rightarrow>
          if length (trim raw) = 0 then Inl (FieldRequired f)
          else trimFields fs (setField d f (trim raw)))"

text \<open>\<open>!Array.isArray(a) || a.length === 0\<close>\<close>

definition emptyArray :: "jsstring list option \<Rightarrow> bool" where
  "emptyArray a = (case a of None \<Rightarrow> True | Some xs \<Rightarrow> length xs = 0)"

text \<open>
  The three blocks after the checks. Reading a string path that holds nothing and calling
  a string method on it raises a TypeError, which the \<open>catch\<close> passes on;
  \<open>new Date(undefined)\<close> is an invalid date.
\<close>

definition typeError :: error where
  "typeError = Thrown ''TypeError''"

definition slugStep :: "caseTable \<Rightarrow> eventDoc \<Rightarrow> error + eventDoc" where
  "slugStep U d =
     (if isModified d Title then
        (case strPath d Title of
           None \<Rightarrow> Inl typeError
         | Some title \<Rightarrow>
             let generatedSlug = slugify U title
             in if generatedSlug = [] then Inl EmptySlug
                else Inr (setField d Slug generatedSlug))
      else Inr d)"

definition dateStep :: "dateParser \<Rightarrow> eventDoc \<Rightarrow> error + eventDoc" where
  "dateStep P d =
     (if isModified d Date then
        (case strPath d Date of
           None \<Rightarrow> Inl InvalidEventDate
         | Some v \<Rightarrow>
             (case normalizeDate P v of
                Inl e \<Rightarrow> Inl e
              | Inr n \<Rightarrow> Inr (setField d Date n)))
      else Inr d)"

definition timeStep :: "eventDoc \<Rightarrow> error + eventDoc" where
  "timeStep d =
     (if isModified d Time then
        (case strPath d Time of
           None \<Rightarrow> Inl typeError
         | Some v \<Rightarrow>
             (case normalizeTime v of
                Inl e \<Rightarrow> Inl e
              | Inr n \<Rightarrow> Inr (setField d Time n)))
      else Inr d)"

text \<open>
  The hook: \<open>Inl e\<close> is \<open>next(e)\<close>, the save is refused with the error \<open>e\<close>;
  \<open>Inr d'\<close> is \<open>next()\<close>, and \<open>d'\<close> is the document that goes on to be stored.
\<close>

definition eventPreSave :: "caseTable \<Rightarrow> dateParser \<Rightarrow> eventDoc \<Rightarrow> error + eventDoc" where
  "eventPreSave U P d =
     (case trimFields requiredStringFields d of
        Inl e \<Rightarrow> Inl e
      | Inr d1 \<Rightarrow>
          if emptyArray (agenda d1) then Inl AgendaRequired
          else if emptyArray (tags d1) then Inl TagsRequired
          else
            (case slugStep U d1 of
               Inl e \<Rightarrow> Inl e
             | Inr d2 \<Rightarrow>
                 (case dateStep P d2 of
                    Inl e \<Rightarrow> Inl e
                  | Inr d3 \<Rightarrow> timeStep d3)))"

text \<open>
  A required string field that is not a string or is empty after trimming, and the
  written form \<open>YYYY-MM-DD\<close> of a date: four digits, a dash, two digits, a dash, two
  digits.
\<close>

definition blank :: "eventDoc \<Rightarrow> field \<Rightarrow> bool" where
  "blank d f = (case strPath d f of None \<Rightarrow> True | Some raw \<Rightarrow> trim raw = [])"

definition isYMD :: "jsstring \<Rightarrow> bool" where
  "isYMD s =
     (length s = 10 \<and> list_all isDigit (take 4 s) \<and> s ! 4 = dash \<and>
      list_all isDigit (take 2 (drop 5 s)) \<and> s ! 7 = dash \<and> list_all isDigit (drop 8 s))"

text \<open>
  A new Event as a caller may give it to \<open>save\<close>, and the same Event with a date in the
  year 10000.
\<close>

fun sampleFields :: "field \<Rightarrow> jsstring option" where
  "sampleFields Title = Some (js ''React Summit_2025!'')"
| "sampleFields Description = Some (js ''Talks'')"
| "sampleFields Overview = Some (js ''One day'')"
| "sampleFields Image = Some (js ''a.png'')"
| "sampleFields Venue = Some (js ''Hall 1'')"
| "sampleFields Location = Some (js ''Oslo'')"
| "sampleFields Date = Some (js ''2025-03-07'')"
| "sampleFields Time = Some (js ''9:05'')"
| "sampleFields Mode = Some (js ''online'')"
| "sampleFields Audience = Some (js ''all'')"
| "sampleFields Organizer = Some (js ''acme'')"
| "sampleFields Slug = None"

definition sampleEvent :: eventDoc where
  "sampleEvent =
     \<lparr>strPath = sampleFields,
      agenda = Some [js ''Keynote'', js ''Break''],
      tags = Some [js ''web'', js ''web''],
      isNew = True,
      modifiedPaths = set requiredStringFields\<rparr>"

definition farFutureEvent :: eventDoc where
  "farFutureEvent = sampleEvent\<lparr>strPath := sampleFields(Date \<mapsto> js ''+010000-01-01'')\<rparr>"

section \<open>The Booking model\<close>

text \<open>The regular expression \<open>/^[^\s@]+@[^\s@]+\.[^\s@]+$/\<close>.\<close>

abbreviation atSign :: jschar where "atSign \<equiv> 0x40"
abbreviation dot :: jschar where "dot \<equiv> 0x2E"

definition notSpaceOrAt :: "jschar \<Rightarrow> bool" where
  "notSpaceOrAt c = (\<not> isWhiteSpace c \<and> c \<noteq> atSign)"

definition emailRegex :: rx where
  "emailRegex =
     Seq (Plus (OneOf notSpaceOrAt))
       (Seq (Chr atSign)
         (Seq (Plus (OneOf notSpaceOrAt)) (Seq (Chr dot) (Plus (OneOf notSpaceOrAt)))))"

type_synonym objectId = nat

record booking =
  eventId :: objectId
  email :: jsstring

text \<open>
  The schema options \<open>trim: true\<close> and \<open>lowercase: true\<close> of the path \<open>email\<close>: the
  value given for the path is put in lower case and trimmed when the document takes it.
\<close>

definition newBooking :: "caseTable \<Rightarrow> objectId \<Rightarrow> jsstring \<Rightarrow> booking" where
  "newBooking U i rawEmail = \<lparr>eventId = i, email = trim (toLowerCase U rawEmail)\<rparr>"

text \<open>
  The database: the Event documents by \<open>_id\<close>, the Booking documents stored so far, and
  whether the driver answers (\<open>outage = Some m\<close>: a query is rejected with an error of
  message \<open>m\<close>).
\<close>

record database =
  events :: "objectId \<Rightarrow> eventDoc option"
  bookings :: "booking list"
  outage :: "string option"

text \<open>\<open>await Event.exists({ _id: i })\<close>\<close>

definition eventExists :: "database \<Rightarrow> objectId \<Rightarrow> error + bool" where
  "eventExists db i =
     (case outage db of
        Some m \<Rightarrow> Inl (Thrown m)
      | None \<Rightarrow> Inr (events db i \<noteq> None))"

definition bookingPreSave :: "database \<Rightarrow> booking \<Rightarrow> error + booking" where
  "bookingPreSave db b =
     (if \<not> rxTest emailRegex (email b) then Inl InvalidEmail
      else
        (case eventExists db (eventId b) of
           Inl e \<Rightarrow> Inl e
         | Inr found \<Rightarrow> if \<not> found then Inl MissingEvent else Inr b))"

text \<open>
  The validators of the schema. \<open>save\<close> validates the document before it runs the
  hooks registered with \<open>pre('save')\<close>. On the path \<open>email\<close>, \<open>required: true\<close> fails
  on a string of length 0, with the message that the library gives a required path; then
  comes the validator of the schema with its message 'Invalid email address'. The first
  validator of a path that fails gives the error of that path: \<open>emailRequired\<close> and
  \<open>emailInvalid\<close> are the two errors with which validation refuses a Booking. The
  attributes are those of \<open>BookingAttrs\<close>: \<open>eventId\<close> is there, and its \<open>required\<close>
  passes.
\<close>

definition requiredMessage :: "string \<Rightarrow> string" where
  "requiredMessage p = ''Path '' @ [CHR 0x60] @ p @ [CHR 0x60] @ '' is required.''"

definition emailRequired :: error where
  "emailRequired = ValidationError ''Booking'' [(''email'', requiredMessage ''email'')]"

definition emailInvalid :: error where
  "emailInvalid = ValidationError ''Booking'' [(''email'', ''Invalid email address'')]"

definition emailValidator :: "jsstring \<Rightarrow> bool" where
  "emailValidator v = rxTest emailRegex v"

definition validateBooking :: "booking \<Rightarrow> error + booking" where
  "validateBooking b =
     (if length (email b) = 0 then Inl emailRequired
      else if \<not> emailValidator (email b) then Inl emailInvalid
      else Inr b)"

text \<open>
  \<open>save\<close> validates, then runs the hook; the document is written only when both pass,
  and the database is left as it was otherwise.
\<close>

definition saveBooking :: "database \<Rightarrow> booking \<Rightarrow> (error + booking) \<times> database" where
  "saveBooking db b =
     (case validateBooking b of
        Inl e \<Rightarrow> (Inl e, db)
      | Inr b1 \<Rightarrow>
          (case bookingPreSave db b1 of
             Inl e \<Rightarrow> (Inl e, db)
           | Inr b' \<Rightarrow> (Inr b', db\<lparr>bookings := bookings db @ [b']\<rparr>)))"
section \<open>The cached connection\<close>
















section \<open>Properties of trim and toLowerCase\<close>

lemma dropWhile_hd: "dropWhile P s = [] \<or> \<not> P (hd (dropWhile P s))"
  by (metis hd_dropWhile)

lemma dropWhile_id: "s = [] \<or> \<not> P (hd s) \<Longrightarrow> dropWhile P s = s"
  by (cases s) auto

lemma trim_id:
  assumes "s = [] \<or> (\<not> isWhiteSpace (hd s) \<and> \<not> isWhiteSpace (last s))"
  shows "trim s = s"
proof (cases "s = []")
  case True
  then show ?thesis by (simp add: trim_def)
next
  case False
  with assms have h: "\<not> isWhiteSpace (hd s)" and l: "\<not> isWhiteSpace (last s)" by simp_all
  have "dropWhile isWhiteSpace s = s" using h by (simp add: dropWhile_id)
  moreover have "dropWhile isWhiteSpace (rev s) = rev s"
    using l False by (intro dropWhile_id) (simp add: hd_rev)
  ultimately show ?thesis by (simp add: trim_def)
qed

lemma trim_edges:
  "trim s = [] \<or> (\<not> isWhiteSpace (hd (trim s)) \<and> \<not> isWhiteSpace (last (trim s)))"
proof (cases "trim s = []")
  case True
  then show ?thesis by simp
next
  case False
  let ?u = "dropWhile isWhiteSpace s"
  let ?r = "dropWhile isWhiteSpace (rev ?u)"
  have t: "trim s = rev ?r" by (simp add: trim_def)
  with False have rne: "?r \<noteq> []" by simp
  have "\<not> isWhiteSpace (hd ?r)" using dropWhile_hd [of isWhiteSpace "rev ?u"] rne by blast
  then have l: "\<not> isWhiteSpace (last (trim s))" using rne by (simp add: t last_rev)
  have "rev (takeWhile isWhiteSpace (rev ?u) @ ?r) = rev (rev ?u)"
    by (simp only: takeWhile_dropWhile_id)
  then have "rev ?r @ rev (takeWhile isWhiteSpace (rev ?u)) = ?u"
    by (simp only: rev_append rev_rev_ident)
  then have u: "?u = trim s @ rev (takeWhile isWhiteSpace (rev ?u))"
    unfolding t by (rule sym)
  then have "?u \<noteq> []" using False by (metis append_is_Nil_conv)
  then have "\<not> isWhiteSpace (hd ?u)" using dropWhile_hd [of isWhiteSpace s] by blast
  moreover have "hd ?u = hd (trim s)" using u False by (metis hd_append2)
  ultimately show ?thesis using l by simp
qed

lemma trim_idem: "trim (trim s) = trim s"
  by (rule trim_id) (rule trim_edges)

lemma set_trim: "set (trim s) \<subseteq> set s"
  by (auto simp: trim_def dest!: set_dropWhileD)

lemma lowerFrom_small:
  assumes "\<forall>pre c post. 0x80 \<le> c \<longrightarrow> \<not> list_ex isAsciiUpper (U pre c post)"
  shows "\<not> list_ex isAsciiUpper (lowerFrom U pre s)"
proof (induction s arbitrary: pre)
  case Nil
  show ?case by simp
next
  case (Cons c cs)
  have "\<not> isAsciiUpper (asciiLower c)"
    by (auto simp: asciiLower_def isAsciiUpper_def)
  moreover have "\<not> c < 0x80 \<Longrightarrow> \<not> list_ex isAsciiUpper (U pre c cs)"
    using assms by (simp add: not_less)
  ultimately show ?case using Cons.IH [of "pre @ [c]"] by (auto simp: list_ex_iff)
qed

section \<open>Properties of slugify\<close>

lemma isSlugChar_ascii: "isSlugChar c \<Longrightarrow> c < 0x80"
  by (auto simp: isSlugChar_def isDigit_def)

lemma isSlugChar_asciiLower: "isSlugChar c \<Longrightarrow> asciiLower c = c"
  by (auto simp: isSlugChar_def isDigit_def asciiLower_def isAsciiUpper_def)

lemma isSlugChar_not_space: "isSlugChar c \<Longrightarrow> \<not> isWhiteSpace c \<and> c \<noteq> underscore"
  by (auto simp: isSlugChar_def isDigit_def isWhiteSpace_def)

lemma lowerFrom_slug: "list_all isSlugChar s \<Longrightarrow> lowerFrom U pre s = s"
  by (induction s arbitrary: pre) (auto simp: isSlugChar_ascii isSlugChar_asciiLower)

lemma replaceRuns_none: "list_all (\<lambda>c. \<not> P c) s \<Longrightarrow> replaceRuns P r s = s"
  by (induction s) auto

lemma trim_slug:
  assumes "list_all isSlugChar s" shows "trim s = s"
proof -
  have a: "\<And>t. list_all isSlugChar t \<Longrightarrow> dropWhile isWhiteSpace t = t"
    by (case_tac t) (auto simp: isSlugChar_not_space)
  have "list_all isSlugChar (rev s)" using assms by (simp add: list_all_iff)
  then show ?thesis using assms by (simp add: trim_def a)
qed

lemma replaceRuns_dash_id: "noDoubleDash s \<Longrightarrow> replaceRuns (\<lambda>c. c = dash) [dash] s = s"
  by (induction s rule: noDoubleDash.induct) auto

lemma list_all_replaceRuns:
  "list_all Q s \<Longrightarrow> list_all Q r \<Longrightarrow> list_all Q (replaceRuns P r s)"
proof (induction P r s rule: replaceRuns.induct)
  case (1 P r)
  then show ?case by simp
next
  case (2 P r c cs)
  have "list_all Q (dropWhile P cs)"
    using 2(3) by (auto simp: list_all_iff dest: set_dropWhileD)
  with 2 show ?case by auto
qed

lemma noDoubleDash_replaceRuns: "noDoubleDash (replaceRuns (\<lambda>c. c = dash) [dash] s)"
proof (induction "\<lambda>c::jschar. c = dash" "[dash]" s rule: replaceRuns.induct)
  case 1
  then show ?case by simp
next
  case (2 c cs)
  show ?case
  proof (cases "c = dash")
    case True
    let ?t = "dropWhile (\<lambda>c. c = dash) cs"
    from True 2(1) have ih: "noDoubleDash (replaceRuns (\<lambda>c. c = dash) [dash] ?t)" by simp
    show ?thesis
    proof (cases ?t)
      case Nil
      with True show ?thesis by (simp del: dropWhile_eq_Nil_conv)
    next
      case (Cons d ds)
      then have "d \<noteq> dash" by (metis (mono_tags, lifting) hd_dropWhile list.distinct(1) list.sel(1))
      with True Cons ih show ?thesis by simp
    qed
  next
    case False
    with 2(2) show ?thesis by (cases "replaceRuns (\<lambda>c. c = dash) [dash] cs") auto
  qed
qed

lemma noDoubleDash_tl: "noDoubleDash (c # cs) \<Longrightarrow> noDoubleDash cs"
  by (cases cs) auto

lemma noDoubleDash_butlast: "noDoubleDash s \<Longrightarrow> noDoubleDash (butlast s)"
  by (induction s rule: noDoubleDash.induct) (auto split: if_splits)

lemma noDoubleDash_last:
  "noDoubleDash s \<Longrightarrow> s \<noteq> [] \<Longrightarrow> last s = dash \<Longrightarrow> butlast s \<noteq> [] \<Longrightarrow> last (butlast s) \<noteq> dash"
  by (induction s rule: noDoubleDash.induct) (auto split: if_splits)

lemma hd_butlast: "butlast s \<noteq> [] \<Longrightarrow> hd (butlast s) = hd s"
  by (cases s) (auto split: if_splits)

lemma dropLastDash_shape:
  assumes "noDoubleDash t" and "t = [] \<or> hd t \<noteq> dash"
  shows "noDoubleDash (if t \<noteq> [] \<and> last t = dash then butlast t else t) \<and>
         \<not> dashAtEdge (if t \<noteq> [] \<and> last t = dash then butlast t else t)"
proof (cases "t \<noteq> [] \<and> last t = dash")
  case True
  have "butlast t = [] \<or> (hd (butlast t) \<noteq> dash \<and> last (butlast t) \<noteq> dash)"
    using True assms by (auto simp: hd_butlast dest: noDoubleDash_last)
  then show ?thesis using True assms(1) by (auto simp: dashAtEdge_def noDoubleDash_butlast)
next
  case False
  then show ?thesis using assms by (auto simp: dashAtEdge_def)
qed

lemma stripEdgeDashes_shape:
  assumes "noDoubleDash s"
  shows "noDoubleDash (stripEdgeDashes s) \<and> \<not> dashAtEdge (stripEdgeDashes s)"
proof (cases s)
  case Nil
  then show ?thesis by (simp add: stripEdgeDashes_def dashAtEdge_def)
next
  case (Cons c cs)
  show ?thesis
  proof (cases "c = dash")
    case True
    have eq: "stripEdgeDashes s = (if cs \<noteq> [] \<and> last cs = dash then butlast cs else cs)"
      using Cons True by (simp add: stripEdgeDashes_def)
    have "noDoubleDash cs" using assms Cons by (auto dest: noDoubleDash_tl)
    moreover have "cs = [] \<or> hd cs \<noteq> dash" using assms Cons True by (cases cs) auto
    ultimately show ?thesis
      unfolding eq by (rule dropLastDash_shape)
  next
    case False
    have eq: "stripEdgeDashes s = (if s \<noteq> [] \<and> last s = dash then butlast s else s)"
      using Cons False by (simp add: stripEdgeDashes_def Let_def)
    have "s = [] \<or> hd s \<noteq> dash" using Cons False by simp
    with assms show ?thesis
      unfolding eq by (rule dropLastDash_shape)
  qed
qed

lemma stripEdgeDashes_id: "\<not> dashAtEdge s \<Longrightarrow> stripEdgeDashes s = s"
  by (cases s) (auto simp: stripEdgeDashes_def dashAtEdge_def)

lemma list_all_stripEdgeDashes: "list_all Q s \<Longrightarrow> list_all Q (stripEdgeDashes s)"
  by (cases s) (auto simp: stripEdgeDashes_def Let_def list_all_iff dest: in_set_butlastD)

lemma slugify_shape:
  "list_all isSlugChar (slugify U v) \<and> noDoubleDash (slugify U v) \<and> \<not> dashAtEdge (slugify U v)"
proof -
  let ?a = "filter isSlugChar (replaceRuns (\<lambda>c. c = underscore \<or> isWhiteSpace c) [dash] (trim (toLowerCase U v)))"
  let ?b = "replaceRuns (\<lambda>c. c = dash) [dash] ?a"
  have "list_all isSlugChar ?a" by (simp add: list_all_iff)
  then have "list_all isSlugChar ?b"
    by (rule list_all_replaceRuns) (simp add: isSlugChar_def)
  then have "list_all isSlugChar (stripEdgeDashes ?b)" by (rule list_all_stripEdgeDashes)
  moreover have "noDoubleDash ?b" by (rule noDoubleDash_replaceRuns)
  ultimately show ?thesis using stripEdgeDashes_shape [of ?b] by (simp add: slugify_def)
qed

lemma slugify_fixed:
  assumes "list_all isSlugChar s" and "noDoubleDash s" and "\<not> dashAtEdge s"
  shows "slugify U s = s"
proof -
  have "toLowerCase U s = s" using assms(1) by (simp add: toLowerCase_def lowerFrom_slug)
  moreover have "trim s = s" using assms(1) by (rule trim_slug)
  moreover have "replaceRuns (\<lambda>c. c = underscore \<or> isWhiteSpace c) [dash] s = s"
    using assms(1) by (intro replaceRuns_none) (auto simp: list_all_iff isSlugChar_not_space)
  moreover have "filter isSlugChar s = s" using assms(1) by (simp add: list_all_iff)
  moreover have "replaceRuns (\<lambda>c. c = dash) [dash] s = s" using assms(2) by (rule replaceRuns_dash_id)
  moreover have "stripEdgeDashes s = s" using assms(3) by (rule stripEdgeDashes_id)
  ultimately show ?thesis by (simp add: slugify_def)
qed

text \<open>
  Claim C9. \<open>slugify\<close> is idempotent: applying it to its own output changes nothing.
  Its output holds only small ASCII letters, digits and dashes, has no two dashes in a
  row, and has no dash at its start or at its end. This holds for every string and every
  case table.
\<close>

theorem slugify_idempotent_shape:
  "slugify U (slugify U s) = slugify U s \<and> list_all isSlugChar (slugify U s) \<and>
   noDoubleDash (slugify U s) \<and> \<not> dashAtEdge (slugify U s)"
  using slugify_shape [of U s] slugify_fixed [of "slugify U s" U] by simp

theorem slugify_idempotent_shape_witness:
  "slugify plainTable (js ''  Hello,  World_- 2025! -- '') = js ''hello-world-2025'' \<and>
   slugify plainTable (js ''hello-world-2025'') = js ''hello-world-2025'' \<and>
   list_all isSlugChar (js ''hello-world-2025'') \<and> noDoubleDash (js ''hello-world-2025'') \<and>
   \<not> dashAtEdge (js ''hello-world-2025'')"
proof -
  have e: "slugify plainTable (js ''  Hello,  World_- 2025! -- '') = js ''hello-world-2025''"
    by (simp add: slugify_def js_def toLowerCase_def asciiLower_def isAsciiUpper_def trim_def
        isWhiteSpace_def isSlugChar_def isDigit_def stripEdgeDashes_def plainTable_def)
  show ?thesis
    using slugify_idempotent_shape [of plainTable "js ''  Hello,  World_- 2025! -- ''"]
    unfolding e by simp
qed

section \<open>The matcher decides the language\<close>

lemma nullable_lang: "nullable r \<longleftrightarrow> [] \<in> lang r"
  by (induction r) (auto simp: conc_def intro: star_nil)

lemma star_cons_split:
  assumes "x \<in> star A" and "x = c # w"
  shows "\<exists>u v. w = u @ v \<and> c # u \<in> A \<and> v \<in> star A"
  using assms
proof (induction arbitrary: w rule: star.induct)
  case star_nil
  then show ?case by simp
next
  case (star_app u v)
  show ?case
  proof (cases u)
    case Nil
    with star_app show ?thesis by simp
  next
    case (Cons d u')
    with star_app.prems have "d = c" and "w = u' @ v" by simp_all
    with Cons star_app.hyps show ?thesis by blast
  qed
qed

lemma deriv_lang: "w \<in> lang (deriv c r) \<longleftrightarrow> c # w \<in> lang r"
proof (induction r arbitrary: w)
  case (Seq r s)
  show ?case
  proof
    assume "w \<in> lang (deriv c (Seq r s))"
    then consider (left) u v where "w = u @ v" "u \<in> lang (deriv c r)" "v \<in> lang s"
      | (right) "nullable r" "w \<in> lang (deriv c s)"
      by (auto simp: conc_def split: if_splits)
    then show "c # w \<in> lang (Seq r s)"
    proof cases
      case left
      then have "(c # u) @ v \<in> conc (lang r) (lang s)"
        unfolding conc_def using Seq.IH(1) by blast
      with left show ?thesis by simp
    next
      case right
      then have "[] @ (c # w) \<in> conc (lang r) (lang s)"
        unfolding conc_def using Seq.IH(2) nullable_lang by blast
      then show ?thesis by simp
    qed
  next
    assume "c # w \<in> lang (Seq r s)"
    then obtain u v where uv: "c # w = u @ v" "u \<in> lang r" "v \<in> lang s"
      by (auto simp: conc_def)
    show "w \<in> lang (deriv c (Seq r s))"
    proof (cases u)
      case Nil
      with uv have "nullable r" "w \<in> lang (deriv c s)"
        using Seq.IH(2) nullable_lang by auto
      then show ?thesis by simp
    next
      case (Cons d u')
      with uv have "u' \<in> lang (deriv c r)" "w = u' @ v"
        using Seq.IH(1) by auto
      with uv(3) have "w \<in> conc (lang (deriv c r)) (lang s)"
        unfolding conc_def by blast
      then show ?thesis by simp
    qed
  qed
next
  case (Star r)
  show ?case
  proof
    assume "w \<in> lang (deriv c (Star r))"
    then obtain u v where "w = u @ v" "c # u \<in> lang r" "v \<in> star (lang r)"
      using Star.IH by (auto simp: conc_def)
    then show "c # w \<in> lang (Star r)"
      using star_app [of "c # u" "lang r" v] by simp
  next
    assume "c # w \<in> lang (Star r)"
    then obtain u v where "w = u @ v" "c # u \<in> lang r" "v \<in> star (lang r)"
      using star_cons_split [of "c # w" "lang r" c w] by auto
    then show "w \<in> lang (deriv c (Star r))"
      using Star.IH by (auto simp: conc_def)
  qed
qed auto

lemma rxTest_lang: "rxTest r s \<longleftrightarrow> s \<in> lang r"
  by (induction s arbitrary: r) (simp_all add: nullable_lang deriv_lang)

lemma star_class: "star {[c] | c. P c} = {w. list_all P w}"
proof
  show "star {[c] | c. P c} \<subseteq> {w. list_all P w}"
  proof
    fix w assume "w \<in> star {[c] | c. P c}"
    then show "w \<in> {w. list_all P w}"
      by (induction rule: star.induct) auto
  qed
next
  show "{w. list_all P w} \<subseteq> star {[c] | c. P c}"
  proof
    fix w assume "w \<in> {w. list_all P w}"
    then have "list_all P w" by simp
    then show "w \<in> star {[c] | c. P c}"
    proof (induction w)
      case Nil
      show ?case by (rule star_nil)
    next
      case (Cons a w)
      then have "[a] \<in> {[c] | c. P c}" and "w \<in> star {[c] | c. P c}" by auto
      then have "[a] @ w \<in> star {[c] | c. P c}" by (rule star_app)
      then show ?case by simp
    qed
  qed
qed

lemma lang_Plus_class: "lang (Plus (OneOf P)) = {w. w \<noteq> [] \<and> list_all P w}"
proof (rule set_eqI)
  fix w
  show "w \<in> lang (Plus (OneOf P)) \<longleftrightarrow> w \<in> {w. w \<noteq> [] \<and> list_all P w}"
  proof
    assume "w \<in> lang (Plus (OneOf P))"
    then obtain u v where "w = u @ v" "u \<in> {[c] | c. P c}" "list_all P v"
      unfolding Plus_def lang.simps conc_def star_class by blast
    then show "w \<in> {w. w \<noteq> [] \<and> list_all P w}" by auto
  next
    assume "w \<in> {w. w \<noteq> [] \<and> list_all P w}"
    then obtain a w' where w: "w = [a] @ w'" "P a" "list_all P w'"
      by (cases w) auto
    then have "[a] \<in> {[c] | c. P c}" "w' \<in> {w. list_all P w}" by auto
    then have "[a] @ w' \<in> conc {[c] | c. P c} {w. list_all P w}"
      unfolding conc_def by blast
    then show "w \<in> lang (Plus (OneOf P))"
      unfolding Plus_def lang.simps star_class w(1) .
  qed
qed

lemma lang_Chr: "lang (Chr a) = {[a]}"
  by (auto simp: Chr_def)

lemma conc_iff: "w \<in> conc A B \<longleftrightarrow> (\<exists>u v. w = u @ v \<and> u \<in> A \<and> v \<in> B)"
  unfolding conc_def by blast

section \<open>What normalizeTime and normalizeDate write\<close>

lemma natToString_digits: "natToString n \<noteq> [] \<and> list_all isDigit (natToString n)"
proof (induction n rule: natToString.induct)
  case (1 n)
  show ?case
  proof (cases "n < 10")
    case True
    then show ?thesis by (subst (1 2) natToString.simps) (simp add: isDigit_def)
  next
    case False
    have "n mod 10 < 10" by simp
    then have "isDigit (zero + n mod 10)" unfolding isDigit_def by linarith
    with False 1 show ?thesis by (subst (1 2) natToString.simps) simp
  qed
qed

lemma padStart_digits:
  "padStart k zero (natToString n) \<noteq> [] \<and> list_all isDigit (padStart k zero (natToString n))"
  using natToString_digits [of n] by (auto simp: padStart_def isDigit_def list_all_iff)

lemma isDigit_not_space: "isDigit c \<Longrightarrow> \<not> isWhiteSpace c"
  by (auto simp: isDigit_def isWhiteSpace_def)


lemma dateChar_not_T: "dateChar c \<Longrightarrow> c \<noteq> 0x54"
  by (auto simp: dateChar_def isDigit_def)


lemma digits_dateChars: "list_all isDigit s \<Longrightarrow> list_all dateChar s"
  by (auto simp: list_all_iff dateChar_def)


lemma isoYear_dateChars: "isoYear y \<noteq> [] \<and> list_all dateChar (isoYear y)"
  using padStart_digits [of 4 "nat y"] padStart_digits [of 6 "nat \<bar>y\<bar>"]
  by (auto simp: isoYear_def digits_dateChars) (simp_all add: dateChar_def)

lemma pad2_dateChars: "list_all dateChar (pad2 n)"
  using padStart_digits [of 2 "nat n"] by (simp add: pad2_def digits_dateChars)



section \<open>The time of day\<close>

lemma two_digits:
  assumes "k < 100"
  shows "padStart 2 zero (natToString k) = [zero + k div 10, zero + k mod 10]"
proof (cases "k < 10")
  case True
  then show ?thesis
    by (subst natToString.simps) (simp add: padStart_def)
next
  case False
  with assms have "k div 10 < 10" by simp
  then have "natToString (k div 10) = [zero + k div 10]"
    by (subst natToString.simps) simp
  with False show ?thesis
    by (subst natToString.simps) (simp add: padStart_def)
qed

lemma toNumber_two: "toNumber [zero + a, zero + b] = 10 * a + b"
  by (simp add: toNumber_def)

lemma written_time_isHHmm:
  assumes "h \<le> 23" and "m \<le> 59"
  shows "isHHmm (padStart 2 zero (natToString h) @ [colon] @ padStart 2 zero (natToString m))"
proof -
  have d: "h div 10 \<le> 9" "h mod 10 \<le> 9" "m div 10 \<le> 9" "m mod 10 \<le> 9"
    using assms by presburger+
  have "toNumber [zero + h div 10, zero + h mod 10] = h"
       "toNumber [zero + m div 10, zero + m mod 10] = m"
    unfolding toNumber_two by simp_all
  then show ?thesis
    using assms d two_digits [of h] two_digits [of m]
    by (simp add: isHHmm_def isDigit_def)
qed

lemma lang_digit: "lang digit = {[c] | c. isDigit c}"
  by (simp add: digit_def)

lemma lang_two_digits: "lang twoDigits = {w. length w = 2 \<and> list_all isDigit w}"
proof (rule set_eqI)
  fix w
  show "w \<in> lang twoDigits \<longleftrightarrow> w \<in> {w. length w = 2 \<and> list_all isDigit w}"
  proof
    assume "w \<in> lang twoDigits"
    then obtain a b where "w = [a] @ [b]" "isDigit a" "isDigit b"
      unfolding twoDigits_def oneOrTwoDigits_def lang.simps lang_digit conc_iff by blast
    then show "w \<in> {w. length w = 2 \<and> list_all isDigit w}" by simp
  next
    assume "w \<in> {w. length w = 2 \<and> list_all isDigit w}"
    then obtain a b where w: "w = [a] @ [b]" "isDigit a" "isDigit b"
      by (cases w; cases "tl w") auto
    then have "[a] \<in> {[c] | c. isDigit c}" "[b] \<in> {[c] | c. isDigit c}" by auto
    then show "w \<in> lang twoDigits"
      unfolding twoDigits_def oneOrTwoDigits_def lang.simps lang_digit conc_iff w(1) by blast
  qed
qed

lemma lang_one_or_two_digits:
  "lang oneOrTwoDigits = {w. (length w = 1 \<or> length w = 2) \<and> list_all isDigit w}"
proof (rule set_eqI)
  fix w
  show "w \<in> lang oneOrTwoDigits \<longleftrightarrow>
        w \<in> {w. (length w = 1 \<or> length w = 2) \<and> list_all isDigit w}"
  proof
    assume "w \<in> lang oneOrTwoDigits"
    then obtain a r where "w = [a] @ r" "isDigit a" "r = [] \<or> (\<exists>b. r = [b] \<and> isDigit b)"
      unfolding twoDigits_def oneOrTwoDigits_def lang.simps lang_digit conc_iff Opt_def by blast
    then show "w \<in> {w. (length w = 1 \<or> length w = 2) \<and> list_all isDigit w}" by auto
  next
    assume "w \<in> {w. (length w = 1 \<or> length w = 2) \<and> list_all isDigit w}"
    then obtain a r where w: "w = [a] @ r" "isDigit a" "r = [] \<or> (\<exists>b. r = [b] \<and> isDigit b)"
      by (cases w; cases "tl w") auto
    then have "[a] \<in> {[c] | c. isDigit c}" "r \<in> {[c] | c. isDigit c} \<union> {[]}" by auto
    then show "w \<in> lang oneOrTwoDigits"
      unfolding twoDigits_def oneOrTwoDigits_def lang.simps lang_digit conc_iff Opt_def w(1) by blast
  qed
qed

lemma timeRegex_shape:
  "rxTest timeRegex s \<longleftrightarrow>
   (\<exists>h m t. s = h @ [colon] @ m @ t \<and> (length h = 1 \<or> length h = 2) \<and> list_all isDigit h \<and>
      length m = 2 \<and> list_all isDigit m \<and>
      (t = [] \<or> (\<exists>x. t = [colon] @ x \<and> length x = 2 \<and> list_all isDigit x)))"
proof -
  let ?H = "{w. (length w = 1 \<or> length w = 2) \<and> list_all isDigit w}"
  let ?M = "{w. length w = 2 \<and> list_all isDigit w}"
  have "lang timeRegex = conc ?H (conc {[colon]} (conc ?M (conc {[colon]} ?M \<union> {[]})))"
    by (simp add: timeRegex_def lang_one_or_two_digits lang_two_digits lang_Chr Opt_def)
  then have "rxTest timeRegex s \<longleftrightarrow>
      (\<exists>h r1. s = h @ r1 \<and> h \<in> ?H \<and>
        (\<exists>c r2. r1 = c @ r2 \<and> c \<in> {[colon]} \<and>
          (\<exists>m t. r2 = m @ t \<and> m \<in> ?M \<and>
            ((\<exists>c' x. t = c' @ x \<and> c' \<in> {[colon]} \<and> x \<in> ?M) \<or> t \<in> {[]}))))"
    by (simp only: rxTest_lang conc_iff Un_iff)
  also have "\<dots> \<longleftrightarrow>
   (\<exists>h m t. s = h @ [colon] @ m @ t \<and> (length h = 1 \<or> length h = 2) \<and> list_all isDigit h \<and>
      length m = 2 \<and> list_all isDigit m \<and>
      (t = [] \<or> (\<exists>x. t = [colon] @ x \<and> length x = 2 \<and> list_all isDigit x)))"
    by (simp only: mem_Collect_eq singleton_iff) blast
  finally show ?thesis .
qed

section \<open>The calendar\<close>

lemma div_bounds:
  fixes x :: int
  shows "4 * (x div 4) \<le> x" "x - 3 \<le> 4 * (x div 4)"
        "100 * (x div 100) \<le> x" "x - 99 \<le> 100 * (x div 100)"
        "400 * (x div 400) \<le> x" "x - 399 \<le> 400 * (x div 400)"
  by presburger+

lemma DayFromYear_lower:
  "0 \<le> n \<Longrightarrow> 365 * n \<le> DayFromYear (1970 + n)"
  "n \<le> 0 \<Longrightarrow> 366 * n \<le> DayFromYear (1970 + n)"
proof -
  let ?a = "(n + 1) div 4" and ?b = "(n + 69) div 100" and ?c = "(n + 369) div 400"
  have e: "DayFromYear (1970 + n) = 365 * n + ?a - ?b + ?c"
    by (simp add: DayFromYear_def ac_simps)
  note b = div_bounds(2) [of "n + 1"] div_bounds(3) [of "n + 69"] div_bounds(6) [of "n + 369"]
  show "365 * n \<le> DayFromYear (1970 + n)" if "0 \<le> n"
  proof (cases "n \<le> 5")
    case True
    with that have "n = 0 \<or> n = 1 \<or> n = 2 \<or> n = 3 \<or> n = 4 \<or> n = 5" by presburger
    then show ?thesis unfolding e by auto
  next
    case False
    then show ?thesis unfolding e using b by linarith
  qed
  show "366 * n \<le> DayFromYear (1970 + n)" if "n \<le> 0"
  proof (cases "- 2 < n")
    case True
    with that have "n = 0 \<or> n = - 1" by presburger
    then show ?thesis unfolding e by auto
  next
    case False
    then show ?thesis unfolding e using b by linarith
  qed
qed

lemma yearDown_le: "DayFromYear (yearDown day y) \<le> day"
proof (induction day y rule: yearDown.induct)
  case (1 day y)
  then show ?case by (subst yearDown.simps) simp
qed

lemma yearDown_next: "day < DayFromYear (y + 1) \<Longrightarrow> day < DayFromYear (yearDown day y + 1)"
proof (induction day y rule: yearDown.induct)
  case (1 day y)
  show ?case
  proof (cases "DayFromYear y \<le> day")
    case True
    with 1 show ?thesis by (subst yearDown.simps) simp
  next
    case False
    then have "day < DayFromYear (y - 1 + 1)" by simp
    with 1(1) [OF False] False show ?thesis by (subst yearDown.simps) simp
  qed
qed

lemma YearFromDay_bounds:
  "DayFromYear (YearFromDay day) \<le> day \<and> day < DayFromYear (YearFromDay day + 1)"
proof -
  let ?q = "max (day div 365) (day div 366)"
  have q: "day div 365 \<le> ?q" "day div 366 \<le> ?q" by simp_all
  have d: "day < 365 * (day div 365 + 1)" "day < 366 * (day div 366 + 1)" by presburger+
  have g: "k * (q + 1) \<le> D \<Longrightarrow> a \<le> q \<Longrightarrow> x < k * (a + 1) \<Longrightarrow> 0 < k \<Longrightarrow> x < D"
    for k q D a x :: int
  proof -
    assume h: "k * (q + 1) \<le> D" "a \<le> q" "x < k * (a + 1)" "0 < k"
    then have "k * (a + 1) \<le> k * (q + 1)" by (simp add: mult_left_mono)
    with h show "x < D" by linarith
  qed
  have "day < DayFromYear (1970 + (?q + 1))"
  proof (cases "0 \<le> ?q + 1")
    case True
    from DayFromYear_lower(1) [OF True] q(1) d(1) show ?thesis by (rule g) simp
  next
    case False
    then have "?q + 1 \<le> 0" by simp
    from DayFromYear_lower(2) [OF this] q(2) d(2) show ?thesis by (rule g) simp
  qed
  then have "day < DayFromYear (1970 + ?q + 1)" by (simp add: add.assoc)
  then show ?thesis
    unfolding YearFromDay_def using yearDown_le yearDown_next by blast
qed

lemma DayFromYear_step:
  "DayFromYear (y + 1) \<le> DayFromYear y + 367"
proof -
  have a: "(y + 1 - 1969) div 4 \<le> (y - 1969) div 4 + 1" by linarith
  have b: "(y - 1901) div 100 \<le> (y + 1 - 1901) div 100" by (rule zdiv_mono1) simp_all
  have c: "(y + 1 - 1601) div 400 \<le> (y - 1601) div 400 + 1" by linarith
  have g: "p' \<le> p + 1 \<Longrightarrow> q \<le> q' \<Longrightarrow> r' \<le> r + 1 \<Longrightarrow>
      365 * (y + 1 - 1970) + p' - q' + r' \<le> 365 * (y - 1970) + p - q + r + 367"
    for p p' q q' r r' :: int
    by (simp add: algebra_simps)
  show ?thesis unfolding DayFromYear_def using a b c by (rule g)
qed

lemma date_in_month:
  assumes "0 \<le> diy" and "diy < 367"
  shows "1 \<le> DateFromDay leap diy \<and> DateFromDay leap diy \<le> 33"
  using assms
  by (cases leap) (simp_all add: DateFromDay_def MonthFromDay_def monthStart_def)

lemma month_in_year: "MonthFromDay leap diy \<le> 11"
  by (simp add: MonthFromDay_def)

lemma natToString_length: "0 < n \<Longrightarrow> k < 10 ^ n \<Longrightarrow> length (natToString k) \<le> n"
proof (induction n arbitrary: k)
  case 0
  then show ?case by simp
next
  case (Suc n)
  show ?case
  proof (cases "k < 10")
    case True
    then show ?thesis by (subst natToString.simps) simp
  next
    case False
    with Suc.prems have n: "0 < n" by (cases n) auto
    from Suc.prems have "k div 10 < 10 ^ n" by (simp add: less_mult_imp_div_less mult.commute)
    from Suc.IH [OF n this] False show ?thesis by (subst natToString.simps) simp
  qed
qed

lemma padStart_length: "length (padStart n c s) = max n (length s)"
  by (simp add: padStart_def)

lemma pad2_two:
  assumes "0 \<le> n" and "n < 100"
  shows "length (pad2 n) = 2 \<and> list_all isDigit (pad2 n)"
proof -
  have "nat n < 10 ^ 2" using assms by simp
  then have "length (natToString (nat n)) \<le> 2" by (intro natToString_length) simp_all
  then show ?thesis
    using padStart_digits [of 2 "nat n"] by (simp add: pad2_def padStart_length)
qed

lemma isoYear_four:
  assumes "0 \<le> y" and "y \<le> 9999"
  shows "length (isoYear y) = 4 \<and> list_all isDigit (isoYear y)"
proof -
  have "nat y < 10 ^ 4" using assms by simp
  then have "length (natToString (nat y)) \<le> 4" by (intro natToString_length) simp_all
  then show ?thesis
    using assms padStart_digits [of 4 "nat y"] by (simp add: isoYear_def padStart_length)
qed

lemma isoYear_long:
  assumes "\<not> (0 \<le> y \<and> y \<le> 9999)"
  shows "7 \<le> length (isoYear y)"
proof -
  from assms have "isoYear y = (if y < 0 then dash else 0x2B) # padStart 6 zero (natToString (nat \<bar>y\<bar>))"
    unfolding isoYear_def by (rule if_not_P)
  then show ?thesis by (simp add: padStart_length)
qed

lemma isYMD_parts:
  assumes "length Y = 4" "list_all isDigit Y" "length M = 2" "list_all isDigit M"
    "length D = 2" "list_all isDigit D"
  shows "isYMD (Y @ [dash] @ M @ [dash] @ D)"
  using assms by (simp add: isYMD_def nth_append)

section \<open>The loop over the required fields\<close>

lemma setField_simps:
  "strPath (setField d f v) g = (if g = f then Some v else strPath d g)"
  "agenda (setField d f v) = agenda d"
  "tags (setField d f v) = tags d"
  "isNew (setField d f v) = isNew d"
  by (simp_all add: setField_def)

lemma setField_modified:
  "isModified d g \<Longrightarrow> isModified (setField d f v) g"
  "isNew d \<Longrightarrow> isModified (setField d f v) f"
  "g \<noteq> f \<Longrightarrow> isModified (setField d f v) g = isModified d g"
  by (simp_all add: setField_def isModified_def)

lemma trimFields_Inr:
  assumes "trimFields fs d = Inr d'"
  shows "(\<forall>f. f \<in> set fs \<longrightarrow>
            (\<exists>raw. strPath d f = Some raw \<and> trim raw \<noteq> [] \<and> strPath d' f = Some (trim raw))) \<and>
         (\<forall>f. f \<notin> set fs \<longrightarrow> strPath d' f = strPath d f) \<and>
         agenda d' = agenda d \<and> tags d' = tags d \<and> isNew d' = isNew d \<and>
         (\<forall>f. isModified d f \<or> (isNew d \<and> f \<in> set fs) \<longrightarrow> isModified d' f)"
  using assms
proof (induction fs arbitrary: d)
  case Nil
  then show ?case by simp
next
  case (Cons g fs)
  from Cons.prems obtain raw where raw: "strPath d g = Some raw" "trim raw \<noteq> []"
    and rest: "trimFields fs (setField d g (trim raw)) = Inr d'"
    by (auto split: option.splits if_splits)
  let ?d1 = "setField d g (trim raw)"
  note ih = Cons.IH [OF rest]
  have a: "\<exists>r. strPath d f = Some r \<and> trim r \<noteq> [] \<and> strPath d' f = Some (trim r)"
    if "f \<in> set (g # fs)" for f
  proof (cases "f \<in> set fs")
    case True
    with ih obtain r1 where r1: "strPath ?d1 f = Some r1" "trim r1 \<noteq> []" "strPath d' f = Some (trim r1)"
      by blast
    show ?thesis
    proof (cases "f = g")
      case True
      with r1 have "r1 = trim raw" by (simp add: setField_simps)
      with r1 raw True show ?thesis by (simp add: trim_idem)
    next
      case False
      with r1 show ?thesis by (simp add: setField_simps)
    qed
  next
    case False
    with that have fg: "f = g" by simp
    from ih False have "strPath d' f = strPath ?d1 f" by blast
    with fg raw show ?thesis by (simp add: setField_simps)
  qed
  have b: "strPath d' f = strPath d f" if "f \<notin> set (g # fs)" for f
    using ih that by (simp add: setField_simps)
  have c: "isModified d' f" if "isModified d f \<or> (isNew d \<and> f \<in> set (g # fs))" for f
  proof -
    have "isModified ?d1 f \<or> (isNew ?d1 \<and> f \<in> set fs)"
      using that setField_modified(1,2) [of d] by (auto simp: setField_simps)
    with ih show ?thesis by blast
  qed
  from a b c ih show ?case by (simp add: setField_simps)
qed

lemma blank_setField:
  "blank (setField d g (trim raw)) f = (if f = g then trim raw = [] else blank d f)"
  by (simp add: blank_def setField_simps trim_idem)


lemma trimFields_total:
  "(\<exists>d'. trimFields fs d = Inr d') \<longleftrightarrow> (\<forall>f. f \<in> set fs \<longrightarrow> \<not> blank d f)"
proof (induction fs arbitrary: d)
  case Nil
  show ?case by simp
next
  case (Cons g fs)
  show ?case
  proof (cases "blank d g")
    case True
    then have "trimFields (g # fs) d = Inl (FieldRequired g)"
      by (auto simp: blank_def split: option.splits)
    with True show ?thesis by auto
  next
    case False
    then obtain raw where raw: "strPath d g = Some raw" "trim raw \<noteq> []"
      by (auto simp: blank_def split: option.splits)
    then have "trimFields (g # fs) d = trimFields fs (setField d g (trim raw))" by simp
    with Cons.IH [of "setField d g (trim raw)"] False raw show ?thesis
      by (auto simp: blank_setField)
  qed
qed

section \<open>The blocks of the hook\<close>

lemma slugStep_Inr:
  assumes "slugStep U d = Inr d'"
  shows "agenda d' = agenda d \<and> tags d' = tags d \<and>
         (\<forall>f. f \<noteq> Slug \<longrightarrow> strPath d' f = strPath d f \<and> isModified d' f = isModified d f) \<and>
         (isModified d Title \<longrightarrow>
            (\<exists>t. strPath d Title = Some t \<and> slugify U t \<noteq> [] \<and>
                 strPath d' Slug = Some (slugify U t)))"
  using assms
  by (auto simp: slugStep_def Let_def setField_simps setField_modified
      split: if_splits option.splits)

lemma dateStep_Inr:
  assumes "dateStep P d = Inr d'"
  shows "agenda d' = agenda d \<and> tags d' = tags d \<and>
         (\<forall>f. f \<noteq> Date \<longrightarrow> strPath d' f = strPath d f \<and> isModified d' f = isModified d f) \<and>
         (isModified d Date \<longrightarrow>
            (\<exists>v n. strPath d Date = Some v \<and> normalizeDate P v = Inr n \<and>
                 strPath d' Date = Some n)) \<and>
         (\<not> isModified d Date \<longrightarrow> d' = d)"
  using assms
  by (auto simp: dateStep_def setField_simps setField_modified
      split: if_splits option.splits sum.splits)

lemma timeStep_Inr:
  assumes "timeStep d = Inr d'"
  shows "agenda d' = agenda d \<and> tags d' = tags d \<and>
         (\<forall>f. f \<noteq> Time \<longrightarrow> strPath d' f = strPath d f \<and> isModified d' f = isModified d f) \<and>
         (isModified d Time \<longrightarrow>
            (\<exists>v n. strPath d Time = Some v \<and> normalizeTime v = Inr n \<and>
                 strPath d' Time = Some n)) \<and>
         (\<not> isModified d Time \<longrightarrow> d' = d)"
  using assms
  by (auto simp: timeStep_def setField_simps setField_modified
      split: if_splits option.splits sum.splits)

lemma eventPreSave_Inr:
  assumes "eventPreSave U P d = Inr d'"
  shows "\<exists>d1 d2 d3. trimFields requiredStringFields d = Inr d1 \<and>
           \<not> emptyArray (agenda d1) \<and> \<not> emptyArray (tags d1) \<and>
           slugStep U d1 = Inr d2 \<and> dateStep P d2 = Inr d3 \<and> timeStep d3 = Inr d'"
  using assms
  by (auto simp: eventPreSave_def split: sum.splits if_splits)


section \<open>The hook on the sample Events\<close>

lemma replicate_num: "replicate (numeral k) c = c # replicate (pred_numeral k) c"
  by (simp add: numeral_eq_Suc)

lemma length_js: "length (js s) = length s"
  by (simp add: js_def)

lemma js_Cons: "js (c # cs) \<noteq> []"
  by (simp add: js_def)

lemma sample_trim:
  "trim (js ''React Summit_2025!'') = js ''React Summit_2025!''"
  "trim (js ''Talks'') = js ''Talks''"
  "trim (js ''One day'') = js ''One day''"
  "trim (js ''a.png'') = js ''a.png''"
  "trim (js ''Hall 1'') = js ''Hall 1''"
  "trim (js ''Oslo'') = js ''Oslo''"
  "trim (js ''2025-03-07'') = js ''2025-03-07''"
  "trim (js ''9:05'') = js ''9:05''"
  "trim (js ''online'') = js ''online''"
  "trim (js ''all'') = js ''all''"
  "trim (js ''acme'') = js ''acme''"
  "trim (js ''+010000-01-01'') = js ''+010000-01-01''"
  by (simp_all add: js_def trim_def isWhiteSpace_def)

lemma sample_slug:
  "slugify plainTable (js ''React Summit_2025!'') = js ''react-summit-2025''"
  by (simp add: slugify_def js_def toLowerCase_def asciiLower_def isAsciiUpper_def trim_def
      isWhiteSpace_def isSlugChar_def isDigit_def stripEdgeDashes_def plainTable_def)

lemma sample_time: "normalizeTime (js ''9:05'') = Inr (js ''09:05'')"
  by (simp add: js_def trim_def isWhiteSpace_def isDigit_def normalizeTime_def timeRegex_def
      oneOrTwoDigits_def twoDigits_def digit_def Opt_def Chr_def hoursGroup_def minutesGroup_def toNumber_def padStart_def
      Let_def natToString.simps)

lemmas calendar_eval =
  YearFromDay_def yearDown.simps DayFromYear_def InLeapYear_def MonthFromDay_def monthStart_def
  DateFromDay_def js_def pad2_def isoYear_def padStart_def natToString.simps replicate_num

lemmas parse_eval =
  isoDateOnly_def js_def isDigit_def monthDay_def toNumber_def utcDate_def monthStart_def
  InLeapYear_def DayFromYear_def msPerDay_def

lemma sample_date: "normalizeDate P (js ''2025-03-07'') = Inr (js ''2025-03-07'')"
proof -
  have p: "isoDateOnly (js ''2025-03-07'') = Some 1741305600000"
    by (simp add: parse_eval)
  have w: "toISOString 1741305600000 = js ''2025-03-07T00:00:00.000Z''"
    unfolding toISOString_def msPerDay_def Let_def by (simp add: calendar_eval)
  show ?thesis
    by (simp add: normalizeDate_def newDate_def p TimeClip_def w beforeT_def) (simp add: js_def)
qed

lemma far_future_date: "normalizeDate P (js ''+010000-01-01'') = Inr (js ''+010000-01-01'')"
proof -
  have p: "isoDateOnly (js ''+010000-01-01'') = Some 253402300800000"
    by (simp add: parse_eval)
  have w: "toISOString 253402300800000 = js ''+010000-01-01T00:00:00.000Z''"
    unfolding toISOString_def msPerDay_def Let_def by (simp add: calendar_eval)
  show ?thesis
    by (simp add: normalizeDate_def newDate_def p TimeClip_def w beforeT_def) (simp add: js_def)
qed

lemmas hook_eval =
  eventPreSave_def requiredStringFields_def sampleEvent_def farFutureEvent_def setField_def
  isModified_def emptyArray_def slugStep_def dateStep_def timeStep_def sample_trim length_js
  sample_slug sample_time sample_date far_future_date Let_def js_Cons

lemma sample_saved:
  "case eventPreSave plainTable P sampleEvent of
     Inl e \<Rightarrow> False
   | Inr d' \<Rightarrow>
       strPath d' Title = Some (js ''React Summit_2025!'') \<and>
       strPath d' Slug = Some (js ''react-summit-2025'') \<and>
       strPath d' Date = Some (js ''2025-03-07'') \<and>
       strPath d' Time = Some (js ''09:05'') \<and>
       agenda d' = Some [js ''Keynote'', js ''Break''] \<and>
       tags d' = Some [js ''web'', js ''web'']"
  apply (simp add: hook_eval)
  done

lemma far_future_saved:
  "case eventPreSave plainTable P farFutureEvent of
     Inl e \<Rightarrow> False
   | Inr d' \<Rightarrow> strPath d' Date = Some (js ''+010000-01-01'')"
  by (simp add: hook_eval)

section \<open>What the hook stores\<close>

lemma eventPreSave_arrays:
  assumes "eventPreSave U P d = Inr d'"
  shows "agenda d' = agenda d \<and> tags d' = tags d \<and>
         \<not> emptyArray (agenda d) \<and> \<not> emptyArray (tags d)"
proof -
  from eventPreSave_Inr [OF assms] obtain d1 d2 d3 where
    s: "trimFields requiredStringFields d = Inr d1" "\<not> emptyArray (agenda d1)"
       "\<not> emptyArray (tags d1)" "slugStep U d1 = Inr d2" "dateStep P d2 = Inr d3"
       "timeStep d3 = Inr d'" by blast
  show ?thesis
    using trimFields_Inr [OF s(1)] slugStep_Inr [OF s(4)] dateStep_Inr [OF s(5)]
      timeStep_Inr [OF s(6)] s(2,3) by simp
qed

lemma eventPreSave_array_errors:
  assumes "\<forall>f. f \<in> set requiredStringFields \<longrightarrow> \<not> blank d f"
  shows "(emptyArray (agenda d) \<longrightarrow> eventPreSave U P d = Inl AgendaRequired) \<and>
         (\<not> emptyArray (agenda d) \<and> emptyArray (tags d) \<longrightarrow> eventPreSave U P d = Inl TagsRequired)"
proof -
  from assms obtain d1 where d1: "trimFields requiredStringFields d = Inr d1"
    using trimFields_total [of requiredStringFields d] by blast
  from trimFields_Inr [OF d1] have "agenda d1 = agenda d" "tags d1 = tags d" by simp_all
  with d1 show ?thesis by (simp add: eventPreSave_def)
qed

lemma eventPreSave_refuses:
  assumes "emptyArray (agenda d) \<or> emptyArray (tags d)"
  shows "\<exists>e. eventPreSave U P d = Inl e"
proof (cases "eventPreSave U P d")
  case (Inl e)
  then show ?thesis by blast
next
  case (Inr d')
  with eventPreSave_arrays [OF Inr] assms show ?thesis by blast
qed

lemma eventPreSave_title_slug:
  assumes ok: "eventPreSave U P d = Inr d'" and m: "isModified d Title \<or> isNew d"
  shows "\<exists>raw. strPath d Title = Some raw \<and> strPath d' Title = Some (trim raw) \<and>
           slugify U (trim raw) \<noteq> [] \<and> strPath d' Slug = Some (slugify U (trim raw))"
proof -
  from eventPreSave_Inr [OF ok] obtain d1 d2 d3 where
    s: "trimFields requiredStringFields d = Inr d1" "slugStep U d1 = Inr d2"
       "dateStep P d2 = Inr d3" "timeStep d3 = Inr d'" by blast
  have t: "Title \<in> set requiredStringFields" by (simp add: requiredStringFields_def)
  from trimFields_Inr [OF s(1)] t obtain raw where
    raw: "strPath d Title = Some raw" "strPath d1 Title = Some (trim raw)" by blast
  have "isModified d1 Title" using trimFields_Inr [OF s(1)] t m by blast
  with slugStep_Inr [OF s(2)] raw have
    d2: "slugify U (trim raw) \<noteq> []" "strPath d2 Slug = Some (slugify U (trim raw))"
        "strPath d2 Title = Some (trim raw)" by auto
  then have "strPath d' Slug = Some (slugify U (trim raw))" "strPath d' Title = Some (trim raw)"
    using dateStep_Inr [OF s(3)] timeStep_Inr [OF s(4)] by simp_all
  with raw d2 show ?thesis by blast
qed

lemma eventPreSave_empty_slug:
  assumes m: "isModified d Title \<or> isNew d" and raw: "strPath d Title = Some raw"
    and e: "slugify U (trim raw) = []"
  shows "(\<exists>e. eventPreSave U P d = Inl e) \<and>
         ((\<forall>f. f \<in> set requiredStringFields \<longrightarrow> \<not> blank d f) \<and> \<not> emptyArray (agenda d) \<and>
          \<not> emptyArray (tags d) \<longrightarrow> eventPreSave U P d = Inl EmptySlug)"
proof -
  have a: "\<exists>e. eventPreSave U P d = Inl e"
  proof (cases "eventPreSave U P d")
    case (Inl e)
    then show ?thesis by blast
  next
    case (Inr d')
    from eventPreSave_title_slug [OF Inr m] raw e show ?thesis by simp
  qed
  have b: "eventPreSave U P d = Inl EmptySlug"
    if g: "\<forall>f. f \<in> set requiredStringFields \<longrightarrow> \<not> blank d f"
      and ar: "\<not> emptyArray (agenda d)" "\<not> emptyArray (tags d)"
  proof -
    from g obtain d1 where d1: "trimFields requiredStringFields d = Inr d1"
      using trimFields_total [of requiredStringFields d] by blast
    have t: "Title \<in> set requiredStringFields" by (simp add: requiredStringFields_def)
    from trimFields_Inr [OF d1] t raw have
      f: "agenda d1 = agenda d" "tags d1 = tags d" "strPath d1 Title = Some (trim raw)"
        "isModified d1 Title" using m by auto
    then have "slugStep U d1 = Inl EmptySlug" using e by (simp add: slugStep_def)
    with d1 f ar show ?thesis by (simp add: eventPreSave_def)
  qed
  from a b show ?thesis by blast
qed





section \<open>The claims on the Event hook\<close>

text \<open>
  Claim C1. When the title of an Event is set or modified at save time (the path is
  marked as modified, or the document is new), a save that goes through stores as slug
  the value of \<open>slugify\<close> on the stored (trimmed) title, and that slug is not empty; it
  holds only small ASCII letters, digits and dashes (the title is put in lower case, runs
  of white space and underscores become a dash, every other character is removed), has
  no two dashes in a row and no dash at its start or at its end. When the derived slug is
  empty the save fails with an error, which is 'Generated slug is empty; check event
  title' when the checks before it pass. The slug is a function of the title: two such
  saves of the same title store the same slug.
\<close>

theorem slug_derived_from_title:
  "((isModified d Title \<or> isNew d) \<and> eventPreSave U P d = Inr d' \<longrightarrow>
      (\<exists>raw. strPath d Title = Some raw \<and> strPath d' Title = Some (trim raw) \<and>
         slugify U (trim raw) \<noteq> [] \<and> strPath d' Slug = Some (slugify U (trim raw)))) \<and>
   ((isModified d Title \<or> isNew d) \<and> eventPreSave U P d = Inr d' \<longrightarrow>
      (\<exists>slug. strPath d' Slug = Some slug \<and> slug \<noteq> [] \<and> list_all isSlugChar slug \<and>
         noDoubleDash slug \<and> \<not> dashAtEdge slug)) \<and>
   ((isModified d Title \<or> isNew d) \<and> strPath d Title = Some raw \<and> slugify U (trim raw) = [] \<longrightarrow>
      (\<exists>e. eventPreSave U P d = Inl e) \<and>
      ((\<forall>f. f \<in> set requiredStringFields \<longrightarrow> \<not> blank d f) \<and> \<not> emptyArray (agenda d) \<and>
        \<not> emptyArray (tags d) \<longrightarrow> eventPreSave U P d = Inl EmptySlug)) \<and>
   message EmptySlug = ''Generated slug is empty; check event title'' \<and>
   ((isModified d Title \<or> isNew d) \<and> eventPreSave U P d = Inr d' \<and>
    (isModified c Title \<or> isNew c) \<and> eventPreSave U Q c = Inr c' \<and>
    strPath c Title = strPath d Title \<longrightarrow> strPath c' Slug = strPath d' Slug)"
proof -
  have a: "\<exists>raw. strPath d Title = Some raw \<and> strPath d' Title = Some (trim raw) \<and>
         slugify U (trim raw) \<noteq> [] \<and> strPath d' Slug = Some (slugify U (trim raw))"
    if "(isModified d Title \<or> isNew d) \<and> eventPreSave U P d = Inr d'"
    using that eventPreSave_title_slug [of U P d d'] by blast
  have sh: "\<exists>slug. strPath d' Slug = Some slug \<and> slug \<noteq> [] \<and> list_all isSlugChar slug \<and>
         noDoubleDash slug \<and> \<not> dashAtEdge slug"
    if h: "(isModified d Title \<or> isNew d) \<and> eventPreSave U P d = Inr d'"
  proof -
    from a [OF h] obtain r where
      "slugify U (trim r) \<noteq> []" "strPath d' Slug = Some (slugify U (trim r))" by blast
    with slugify_shape [of U "trim r"] show ?thesis by simp
  qed
  have b: "(\<exists>e. eventPreSave U P d = Inl e) \<and>
      ((\<forall>f. f \<in> set requiredStringFields \<longrightarrow> \<not> blank d f) \<and> \<not> emptyArray (agenda d) \<and>
        \<not> emptyArray (tags d) \<longrightarrow> eventPreSave U P d = Inl EmptySlug)"
    if "(isModified d Title \<or> isNew d) \<and> strPath d Title = Some raw \<and> slugify U (trim raw) = []"
    using that eventPreSave_empty_slug [of d raw U P] by blast
  have c: "strPath c' Slug = strPath d' Slug"
    if "(isModified d Title \<or> isNew d) \<and> eventPreSave U P d = Inr d' \<and>
        (isModified c Title \<or> isNew c) \<and> eventPreSave U Q c = Inr c' \<and>
        strPath c Title = strPath d Title"
    using that eventPreSave_title_slug [of U P d d'] eventPreSave_title_slug [of U Q c c']
    by auto
  have m: "message EmptySlug = ''Generated slug is empty; check event title''" by simp
  show ?thesis
    apply (intro conjI impI)
    subgoal by (rule a) blast
    subgoal by (rule sh) blast
    subgoal using b by blast
    subgoal using b by blast
    subgoal by (rule m)
    subgoal by (rule c) blast
    done
qed

lemma emptyArray_iff: "\<not> emptyArray a \<longleftrightarrow> (\<exists>x xs. a = Some (x # xs))"
  by (auto simp: emptyArray_def neq_Nil_conv split: option.splits)

lemma sample_not_blank:
  "\<forall>f. f \<in> set requiredStringFields \<longrightarrow> \<not> blank (sampleEvent\<lparr>agenda := a\<rparr>) f"
  "\<forall>f. f \<in> set requiredStringFields \<longrightarrow> \<not> blank (sampleEvent\<lparr>tags := a\<rparr>) f"
  "\<forall>f. f \<in> set requiredStringFields \<longrightarrow>
       \<not> blank (sampleEvent\<lparr>strPath := sampleFields(Title \<mapsto> js ''!!!'')\<rparr>) f"
  by (auto simp: requiredStringFields_def blank_def sampleEvent_def sample_trim js_Cons)
     (simp add: js_def trim_def isWhiteSpace_def)

lemma dashed_title:
  "trim (js '' -- Dev_Events:  2025 --'') = js ''-- Dev_Events:  2025 --''"
  "slugify plainTable (js ''-- Dev_Events:  2025 --'') = js ''dev-events-2025''"
  by (simp_all add: slugify_def js_def toLowerCase_def asciiLower_def isAsciiUpper_def trim_def
      isWhiteSpace_def isSlugChar_def isDigit_def stripEdgeDashes_def plainTable_def)

lemma dashed_saved:
  "case eventPreSave plainTable P
          (sampleEvent\<lparr>strPath := sampleFields(Title \<mapsto> js '' -- Dev_Events:  2025 --'')\<rparr>) of
     Inl e \<Rightarrow> False
   | Inr d' \<Rightarrow> True"
  by (simp add: hook_eval dashed_title)

theorem slug_derived_from_title_witness:
  "(\<exists>d'. eventPreSave plainTable isoOnly sampleEvent = Inr d' \<and>
         strPath d' Title = Some (js ''React Summit_2025!'') \<and>
         strPath d' Slug = Some (js ''react-summit-2025'')) \<and>
   (\<exists>d'. eventPreSave plainTable isoOnly
           (sampleEvent\<lparr>strPath := sampleFields(Title \<mapsto> js '' -- Dev_Events:  2025 --'')\<rparr>) =
           Inr d' \<and>
         strPath d' Title = Some (js ''-- Dev_Events:  2025 --'') \<and>
         strPath d' Slug = Some (js ''dev-events-2025'') \<and>
         list_all isSlugChar (js ''dev-events-2025'') \<and> noDoubleDash (js ''dev-events-2025'') \<and>
         \<not> dashAtEdge (js ''dev-events-2025'')) \<and>
   eventPreSave plainTable isoOnly (sampleEvent\<lparr>strPath := sampleFields(Title \<mapsto> js ''!!!'')\<rparr>) =
     Inl EmptySlug"
proof -
  from sample_saved [of isoOnly] obtain d' where
    ok: "eventPreSave plainTable isoOnly sampleEvent = Inr d'"
    by (cases "eventPreSave plainTable isoOnly sampleEvent") auto
  have new: "isNew sampleEvent" and t: "strPath sampleEvent Title = Some (js ''React Summit_2025!'')"
    by (simp_all add: sampleEvent_def)
  from slug_derived_from_title [where d = sampleEvent and U = plainTable and P = isoOnly and d' = d']
    new ok t
  have "strPath d' Title = Some (js ''React Summit_2025!'') \<and>
        strPath d' Slug = Some (js ''react-summit-2025'')"
    by (auto simp: sample_trim sample_slug)
  with ok have a: "\<exists>d'. eventPreSave plainTable isoOnly sampleEvent = Inr d' \<and>
         strPath d' Title = Some (js ''React Summit_2025!'') \<and>
         strPath d' Slug = Some (js ''react-summit-2025'')" by blast
  let ?g = "sampleEvent\<lparr>strPath := sampleFields(Title \<mapsto> js '' -- Dev_Events:  2025 --'')\<rparr>"
  from dashed_saved [of isoOnly] obtain g' where
    okg: "eventPreSave plainTable isoOnly ?g = Inr g'"
    by (cases "eventPreSave plainTable isoOnly ?g") auto
  have hg: "isNew ?g" "strPath ?g Title = Some (js '' -- Dev_Events:  2025 --'')"
    by (simp_all add: sampleEvent_def)
  note G = slug_derived_from_title [where d = ?g and U = plainTable and P = isoOnly and d' = g']
  from G hg(1) okg obtain r where
    r: "strPath ?g Title = Some r" "strPath g' Title = Some (trim r)"
       "strPath g' Slug = Some (slugify plainTable (trim r))" by blast
  from r(1) hg(2) have "r = js '' -- Dev_Events:  2025 --''" by simp
  with r(2,3) have g1: "strPath g' Title = Some (js ''-- Dev_Events:  2025 --'')"
    "strPath g' Slug = Some (js ''dev-events-2025'')"
    by (simp_all add: dashed_title)
  from G hg(1) okg obtain slug where
    "strPath g' Slug = Some slug" "list_all isSlugChar slug" "noDoubleDash slug"
    "\<not> dashAtEdge slug" by blast
  with g1(2) have g2: "list_all isSlugChar (js ''dev-events-2025'')"
    "noDoubleDash (js ''dev-events-2025'')" "\<not> dashAtEdge (js ''dev-events-2025'')"
    by simp_all
  from okg g1 g2 have b: "\<exists>d'. eventPreSave plainTable isoOnly ?g = Inr d' \<and>
         strPath d' Title = Some (js ''-- Dev_Events:  2025 --'') \<and>
         strPath d' Slug = Some (js ''dev-events-2025'') \<and>
         list_all isSlugChar (js ''dev-events-2025'') \<and> noDoubleDash (js ''dev-events-2025'') \<and>
         \<not> dashAtEdge (js ''dev-events-2025'')" by blast
  let ?e = "sampleEvent\<lparr>strPath := sampleFields(Title \<mapsto> js ''!!!'')\<rparr>"
  have h: "isNew ?e" "strPath ?e Title = Some (js ''!!!'')" "\<not> emptyArray (agenda ?e)"
    "\<not> emptyArray (tags ?e)"
    by (simp_all add: sampleEvent_def emptyArray_def)
  have s: "slugify plainTable (trim (js ''!!!'')) = []"
    by (simp add: slugify_def js_def toLowerCase_def asciiLower_def isAsciiUpper_def trim_def
        isWhiteSpace_def isSlugChar_def isDigit_def stripEdgeDashes_def plainTable_def)
  from slug_derived_from_title [where d = ?e and U = plainTable and raw = "js ''!!!''" and P = isoOnly]
    h s sample_not_blank(3)
  have c: "eventPreSave plainTable isoOnly ?e = Inl EmptySlug" by blast
  from a b c show ?thesis by (intro conjI)
qed

text \<open>
  Claim C5. The agenda of an Event is a non-empty ordered list of strings: a save of an
  Event whose agenda is missing, is not an array or is empty fails with an error (the
  error 'Field "agenda" is required and cannot be empty' when the string fields pass),
  and a save that goes through stores the agenda as it was given, same items in the same
  order, with one item at least.
\<close>

theorem agenda_non_empty_kept:
  "(emptyArray (agenda d) \<longrightarrow> (\<exists>e. eventPreSave U P d = Inl e)) \<and>
   (emptyArray (agenda d) \<and> (\<forall>f. f \<in> set requiredStringFields \<longrightarrow> \<not> blank d f) \<longrightarrow>
      eventPreSave U P d = Inl AgendaRequired) \<and>
   (eventPreSave U P d = Inr d' \<longrightarrow>
      agenda d' = agenda d \<and> (\<exists>x xs. agenda d' = Some (x # xs)))"
proof -
  have "agenda d' = agenda d \<and> (\<exists>x xs. agenda d' = Some (x # xs))"
    if "eventPreSave U P d = Inr d'"
  proof -
    from eventPreSave_arrays [OF that] have "agenda d' = agenda d" "\<not> emptyArray (agenda d')"
      by simp_all
    then show ?thesis by (simp add: emptyArray_iff)
  qed
  then show ?thesis
    using eventPreSave_refuses [of d U P] eventPreSave_array_errors [of d U P] by blast
qed

theorem agenda_non_empty_kept_witness:
  "eventPreSave plainTable isoOnly (sampleEvent\<lparr>agenda := None\<rparr>) =
     Inl AgendaRequired \<and>
   eventPreSave plainTable isoOnly (sampleEvent\<lparr>agenda := Some []\<rparr>) =
     Inl AgendaRequired \<and>
   (\<exists>d'. eventPreSave plainTable isoOnly sampleEvent = Inr d' \<and>
         agenda d' = Some [js ''Keynote'', js ''Break''])"
proof -
  from sample_saved [of isoOnly] obtain d' where
    ok: "eventPreSave plainTable isoOnly sampleEvent = Inr d'"
    by (cases "eventPreSave plainTable isoOnly sampleEvent") auto
  from agenda_non_empty_kept [where d = sampleEvent and U = plainTable and P = isoOnly and d' = d'] ok
  have "agenda d' = Some [js ''Keynote'', js ''Break'']" by (simp add: sampleEvent_def)
  with ok have a: "\<exists>d'. eventPreSave plainTable isoOnly sampleEvent = Inr d' \<and>
         agenda d' = Some [js ''Keynote'', js ''Break'']" by blast
  have b: "eventPreSave plainTable isoOnly (sampleEvent\<lparr>agenda := None\<rparr>) =
     Inl AgendaRequired"
    using agenda_non_empty_kept
      [where d = "sampleEvent\<lparr>agenda := None\<rparr>" and U = plainTable and P = isoOnly and d' = d']
      sample_not_blank(1) by (simp add: emptyArray_def)
  have c: "eventPreSave plainTable isoOnly (sampleEvent\<lparr>agenda := Some []\<rparr>) =
     Inl AgendaRequired"
    using agenda_non_empty_kept
      [where d = "sampleEvent\<lparr>agenda := Some []\<rparr>" and U = plainTable and P = isoOnly and d' = d']
      sample_not_blank(1) by (simp add: emptyArray_def)
  from a b c show ?thesis by blast
qed

text \<open>
  Claim C6, as it is written: the stored tags hold no string twice. The hook checks that
  the tags are a non-empty array and stores them as they were given; nothing in the
  schema or in the hook removes a repeated tag. The sample Event, whose tags are 'web'
  and 'web', is saved with both.
\<close>

theorem tags_duplicates_counterexample:
  "(case eventPreSave plainTable isoOnly sampleEvent of
      Inl e \<Rightarrow> False
    | Inr d' \<Rightarrow> tags d' = Some [js ''web'', js ''web'']) \<and>
   \<not> distinct [js ''web'', js ''web'']"
  using sample_saved [of isoOnly]
  by (cases "eventPreSave plainTable isoOnly sampleEvent") simp_all

text \<open>
  Claim C6, amended. The tags of an Event are a non-empty list of strings: a save of an
  Event whose tags are missing, are not an array or are empty fails with an error (the
  error 'Field "tags" is required and cannot be empty' when the string fields and the
  agenda pass), and a save that goes through stores the tags as they were given, with
  one tag at least; a tag given twice is stored twice.
\<close>

theorem tags_non_empty_kept:
  "(emptyArray (tags d) \<longrightarrow> (\<exists>e. eventPreSave U P d = Inl e)) \<and>
   (emptyArray (tags d) \<and> \<not> emptyArray (agenda d) \<and>
    (\<forall>f. f \<in> set requiredStringFields \<longrightarrow> \<not> blank d f) \<longrightarrow>
      eventPreSave U P d = Inl TagsRequired) \<and>
   (eventPreSave U P d = Inr d' \<longrightarrow>
      tags d' = tags d \<and> (\<exists>x xs. tags d' = Some (x # xs)))"
proof -
  have "tags d' = tags d \<and> (\<exists>x xs. tags d' = Some (x # xs))"
    if "eventPreSave U P d = Inr d'"
  proof -
    from eventPreSave_arrays [OF that] have "tags d' = tags d" "\<not> emptyArray (tags d')"
      by simp_all
    then show ?thesis by (simp add: emptyArray_iff)
  qed
  then show ?thesis
    using eventPreSave_refuses [of d U P] eventPreSave_array_errors [of d U P] by blast
qed

theorem tags_non_empty_kept_witness:
  "eventPreSave plainTable isoOnly (sampleEvent\<lparr>tags := None\<rparr>) = Inl TagsRequired \<and>
   eventPreSave plainTable isoOnly (sampleEvent\<lparr>tags := Some []\<rparr>) = Inl TagsRequired \<and>
   (\<exists>d'. eventPreSave plainTable isoOnly sampleEvent = Inr d' \<and>
         tags d' = Some [js ''web'', js ''web''])"
proof -
  from sample_saved [of isoOnly] obtain d' where
    ok: "eventPreSave plainTable isoOnly sampleEvent = Inr d'"
    by (cases "eventPreSave plainTable isoOnly sampleEvent") auto
  from tags_non_empty_kept [where d = sampleEvent and U = plainTable and P = isoOnly and d' = d'] ok
  have "tags d' = Some [js ''web'', js ''web'']" by (simp add: sampleEvent_def)
  with ok have a: "\<exists>d'. eventPreSave plainTable isoOnly sampleEvent = Inr d' \<and>
         tags d' = Some [js ''web'', js ''web'']" by blast
  have b: "eventPreSave plainTable isoOnly (sampleEvent\<lparr>tags := None\<rparr>) = Inl TagsRequired"
    using tags_non_empty_kept
      [where d = "sampleEvent\<lparr>tags := None\<rparr>" and U = plainTable and P = isoOnly and d' = d']
      sample_not_blank(2) by (simp add: emptyArray_def sampleEvent_def)
  have c: "eventPreSave plainTable isoOnly (sampleEvent\<lparr>tags := Some []\<rparr>) = Inl TagsRequired"
    using tags_non_empty_kept
      [where d = "sampleEvent\<lparr>tags := Some []\<rparr>" and U = plainTable and P = isoOnly and d' = d']
      sample_not_blank(2) by (simp add: emptyArray_def sampleEvent_def)
  from a b c show ?thesis by blast
qed




lemma time_groups:
  assumes "s = h @ [colon] @ m @ t" and "list_all isDigit h" and "length m = 2"
  shows "hoursGroup s = h \<and> minutesGroup s = m"
proof -
  have "\<not> isDigit colon" by (simp add: isDigit_def)
  then have h: "takeWhile isDigit (h @ colon # m @ t) = h"
    using assms(2) by (simp add: takeWhile_append2 list_all_iff)
  then show ?thesis using assms by (simp add: hoursGroup_def minutesGroup_def)
qed

lemma normalizeTime_returns:
  assumes "normalizeTime v = Inr n"
  shows "isHHmm n \<and> rxTest timeRegex (trim v) \<and>
      toNumber (take 2 n) = toNumber (hoursGroup (trim v)) \<and>
      toNumber (drop 3 n) = toNumber (minutesGroup (trim v))"
proof -
  let ?h = "toNumber (hoursGroup (trim v))" and ?m = "toNumber (minutesGroup (trim v))"
  from assms have t: "rxTest timeRegex (trim v)" and r: "?h \<le> 23" "?m \<le> 59"
    and n: "n = padStart 2 zero (natToString ?h) @ [colon] @ padStart 2 zero (natToString ?m)"
    by (auto simp: normalizeTime_def Let_def split: if_splits)
  have "n = [zero + ?h div 10, zero + ?h mod 10] @ [colon] @ [zero + ?m div 10, zero + ?m mod 10]"
    unfolding n using r two_digits [of ?h] two_digits [of ?m] by simp
  then have "toNumber (take 2 n) = ?h" "toNumber (drop 3 n) = ?m"
    by (simp_all add: toNumber_two)
  with t written_time_isHHmm [OF r] n show ?thesis by simp
qed

text \<open>
  On \<open>normalizeTime\<close>: a string that, trimmed, is not of the
  form \<open>H:mm\<close>, \<open>HH:mm\<close> or \<open>HH:mm:ss\<close> (or \<open>H:mm:ss\<close>) is refused with
  'Invalid event time; expected HH:mm'; one of that form with hours beyond 23 or minutes
  beyond 59 is refused with the range error; and what \<open>normalizeTime\<close> returns is of the
  form \<open>HH:mm\<close>, with the hours and minutes of the string given.
\<close>

theorem normalizeTime_HHmm:
  "(normalizeTime v = Inr n \<longrightarrow>
      isHHmm n \<and> rxTest timeRegex (trim v) \<and>
      toNumber (take 2 n) = toNumber (hoursGroup (trim v)) \<and>
      toNumber (drop 3 n) = toNumber (minutesGroup (trim v))) \<and>
   (\<not> rxTest timeRegex (trim v) \<longrightarrow> normalizeTime v = Inl InvalidTimeFormat) \<and>
   (rxTest timeRegex (trim v) \<and>
    (23 < toNumber (hoursGroup (trim v)) \<or> 59 < toNumber (minutesGroup (trim v))) \<longrightarrow>
      normalizeTime v = Inl InvalidTimeRange) \<and>
   (rxTest timeRegex s \<longleftrightarrow>
      (\<exists>h m t. s = h @ [colon] @ m @ t \<and> (length h = 1 \<or> length h = 2) \<and> list_all isDigit h \<and>
         length m = 2 \<and> list_all isDigit m \<and> hoursGroup s = h \<and> minutesGroup s = m \<and>
         (t = [] \<or> (\<exists>x. t = [colon] @ x \<and> length x = 2 \<and> list_all isDigit x))))"
proof -
  have a: "isHHmm n \<and> rxTest timeRegex (trim v) \<and>
      toNumber (take 2 n) = toNumber (hoursGroup (trim v)) \<and>
      toNumber (drop 3 n) = toNumber (minutesGroup (trim v))"
    if "normalizeTime v = Inr n"
    using that by (rule normalizeTime_returns)
  have b: "normalizeTime v = Inl InvalidTimeFormat" if "\<not> rxTest timeRegex (trim v)"
    using that by (simp add: normalizeTime_def)
  have c: "normalizeTime v = Inl InvalidTimeRange"
    if "rxTest timeRegex (trim v) \<and>
        (23 < toNumber (hoursGroup (trim v)) \<or> 59 < toNumber (minutesGroup (trim v)))"
    using that by (auto simp: normalizeTime_def Let_def)
  have d: "rxTest timeRegex s \<longleftrightarrow>
      (\<exists>h m t. s = h @ [colon] @ m @ t \<and> (length h = 1 \<or> length h = 2) \<and> list_all isDigit h \<and>
         length m = 2 \<and> list_all isDigit m \<and> hoursGroup s = h \<and> minutesGroup s = m \<and>
         (t = [] \<or> (\<exists>x. t = [colon] @ x \<and> length x = 2 \<and> list_all isDigit x)))"
    unfolding timeRegex_shape using time_groups [of s] by blast
  from a b c d show ?thesis by blast
qed

theorem normalizeTime_HHmm_witness:
  "normalizeTime (js '' 9:05 '') = Inr (js ''09:05'') \<and> isHHmm (js ''09:05'') \<and>
   normalizeTime (js ''9.30'') = Inl InvalidTimeFormat \<and>
   normalizeTime (js ''24:00'') = Inl InvalidTimeRange \<and>
   rxTest timeRegex (js ''23:59:07'')"
proof -
  note ev = js_def trim_def isWhiteSpace_def isDigit_def normalizeTime_def timeRegex_def
    oneOrTwoDigits_def twoDigits_def digit_def Opt_def Chr_def hoursGroup_def minutesGroup_def
    toNumber_def padStart_def Let_def natToString.simps
  have e: "normalizeTime (js '' 9:05 '') = Inr (js ''09:05'')"
    "\<not> rxTest timeRegex (trim (js ''9.30''))"
    "rxTest timeRegex (trim (js ''24:00'')) \<and>
      (23 < toNumber (hoursGroup (trim (js ''24:00''))) \<or>
       59 < toNumber (minutesGroup (trim (js ''24:00''))))"
    "rxTest timeRegex (js ''23:59:07'')"
    by (simp_all add: ev)
  from normalizeTime_HHmm [of "js '' 9:05 ''" "js ''09:05''"] e(1)
  have "isHHmm (js ''09:05'')" by blast
  moreover from normalizeTime_HHmm [of "js ''9.30''"] e(2)
  have "normalizeTime (js ''9.30'') = Inl InvalidTimeFormat" by blast
  moreover from normalizeTime_HHmm [of "js ''24:00''"] e(3)
  have "normalizeTime (js ''24:00'') = Inl InvalidTimeRange" by blast
  ultimately show ?thesis using e(1,4) by blast
qed

lemma event_time_stored:
  "eventPreSave U P d = Inr d' \<and>
   (isModified d Time \<or> isNew d \<or> (\<exists>v. strPath d Time = Some v \<and> isHHmm v)) \<longrightarrow>
     (\<exists>n. strPath d' Time = Some n \<and> isHHmm n)"
proof
  assume h: "eventPreSave U P d = Inr d' \<and>
   (isModified d Time \<or> isNew d \<or> (\<exists>v. strPath d Time = Some v \<and> isHHmm v))"
  then have ok: "eventPreSave U P d = Inr d'" by simp
  from eventPreSave_Inr [OF ok] obtain d1 d2 d3 where
    s: "trimFields requiredStringFields d = Inr d1" "slugStep U d1 = Inr d2"
       "dateStep P d2 = Inr d3" "timeStep d3 = Inr d'" by blast
  have t: "Time \<in> set requiredStringFields" by (simp add: requiredStringFields_def)
  from trimFields_Inr [OF s(1)] t obtain raw where
    raw: "strPath d Time = Some raw" "strPath d1 Time = Some (trim raw)" by blast
  have d3: "strPath d3 Time = Some (trim raw)" "isModified d3 Time = isModified d1 Time"
    using slugStep_Inr [OF s(2)] dateStep_Inr [OF s(3)] raw by simp_all
  show "\<exists>n. strPath d' Time = Some n \<and> isHHmm n"
  proof (cases "isModified d3 Time")
    case True
    with timeStep_Inr [OF s(4)] obtain v n where
      "normalizeTime v = Inr n" "strPath d' Time = Some n" by blast
    with normalizeTime_returns [of v n] show ?thesis by blast
  next
    case False
    then have same: "strPath d' Time = Some (trim raw)" using timeStep_Inr [OF s(4)] d3 by simp
    from False d3 have "\<not> (isModified d Time \<or> isNew d)"
      using trimFields_Inr [OF s(1)] t by blast
    with h raw have hh: "isHHmm raw" by auto
    then have len: "length raw = 5" and dg: "isDigit (raw ! 0)" "isDigit (raw ! 4)"
      by (simp_all add: isHHmm_def)
    from len have ne: "raw \<noteq> []" by auto
    with len have "hd raw = raw ! 0" "last raw = raw ! 4"
      by (simp_all add: hd_conv_nth last_conv_nth)
    with dg ne have "raw \<noteq> []" "\<not> isWhiteSpace (hd raw)" "\<not> isWhiteSpace (last raw)"
      by (simp_all add: isDigit_not_space)
    then have "trim raw = raw" by (simp add: trim_id)
    with same hh show ?thesis by simp
  qed
qed

lemma written_date:
  "beforeT (toISOString t) =
     isoYear (YearFromDay (t div msPerDay)) @ [dash] @
     pad2 (int (MonthFromDay (InLeapYear (YearFromDay (t div msPerDay)))
                 (t div msPerDay - DayFromYear (YearFromDay (t div msPerDay)))) + 1) @ [dash] @
     pad2 (DateFromDay (InLeapYear (YearFromDay (t div msPerDay)))
                 (t div msPerDay - DayFromYear (YearFromDay (t div msPerDay))))"
proof -
  let ?y = "YearFromDay (t div msPerDay)"
  let ?diy = "t div msPerDay - DayFromYear ?y"
  let ?w = "isoYear ?y @ [dash] @ pad2 (int (MonthFromDay (InLeapYear ?y) ?diy) + 1) @ [dash] @
     pad2 (DateFromDay (InLeapYear ?y) ?diy)"
  obtain rest where iso: "toISOString t = ?w @ 0x54 # rest"
    unfolding toISOString_def Let_def by simp
  have "list_all dateChar ?w"
    using isoYear_dateChars [of ?y] pad2_dateChars by (simp add: dateChar_def)
  then have "\<forall>c \<in> set ?w. c \<noteq> 0x54"
    unfolding list_all_iff using dateChar_not_T by blast
  then show ?thesis
    unfolding iso beforeT_def by (subst takeWhile_append2) auto
qed

lemma written_date_form:
  "isYMD (beforeT (toISOString t)) \<longleftrightarrow>
     0 \<le> YearFromDay (t div msPerDay) \<and> YearFromDay (t div msPerDay) \<le> 9999"
proof -
  let ?day = "t div msPerDay"
  let ?y = "YearFromDay ?day"
  let ?diy = "?day - DayFromYear ?y"
  let ?M = "pad2 (int (MonthFromDay (InLeapYear ?y) ?diy) + 1)"
  let ?D = "pad2 (DateFromDay (InLeapYear ?y) ?diy)"
  have diy: "0 \<le> ?diy" "?diy < 367"
    using YearFromDay_bounds [of ?day] DayFromYear_step [of ?y] by linarith+
  have m: "length ?M = 2 \<and> list_all isDigit ?M"
    using month_in_year [of "InLeapYear ?y" ?diy] by (intro pad2_two) simp_all
  have d: "length ?D = 2 \<and> list_all isDigit ?D"
    using date_in_month [OF diy, of "InLeapYear ?y"] by (intro pad2_two) simp_all
  have w: "beforeT (toISOString t) = isoYear ?y @ [dash] @ ?M @ [dash] @ ?D"
    by (rule written_date)
  show ?thesis
  proof (cases "0 \<le> ?y \<and> ?y \<le> 9999")
    case True
    with isoYear_four [of ?y] m d have "isYMD (isoYear ?y @ [dash] @ ?M @ [dash] @ ?D)"
      by (intro isYMD_parts) simp_all
    with True w show ?thesis by simp
  next
    case False
    from isoYear_long [OF False] m d have "length (beforeT (toISOString t)) \<noteq> 10"
      unfolding w by simp
    then have "\<not> isYMD (beforeT (toISOString t))" by (simp add: isYMD_def)
    with False show ?thesis by simp
  qed
qed

text \<open>
  On \<open>normalizeDate\<close>: a string that does not parse to a
  valid date is refused with 'Invalid event date'; for one that parses, what
  \<open>normalizeDate\<close> returns is the date part of \<open>toISOString\<close>, and it is of the form
  \<open>YYYY-MM-DD\<close> exactly when the year of the date (in UTC) is from 0 to 9999.
\<close>

theorem normalizeDate_YMD:
  "(newDate P v = None \<longrightarrow> normalizeDate P v = Inl InvalidEventDate) \<and>
   (newDate P v = Some t \<longrightarrow>
      normalizeDate P v = Inr (beforeT (toISOString t)) \<and>
      (isYMD (beforeT (toISOString t)) \<longleftrightarrow>
         0 \<le> YearFromDay (t div msPerDay) \<and> YearFromDay (t div msPerDay) \<le> 9999))"
  using written_date_form [of t] by (simp add: normalizeDate_def)

theorem normalizeDate_YMD_witness:
  "normalizeDate isoOnly (js ''2025-03-07'') = Inr (js ''2025-03-07'') \<and>
   isYMD (js ''2025-03-07'') \<and>
   normalizeDate isoOnly (js ''next week'') = Inl InvalidEventDate \<and>
   normalizeDate isoOnly (js ''+010000-01-01'') = Inr (js ''+010000-01-01'') \<and>
   \<not> isYMD (js ''+010000-01-01'')"
proof -
  have p: "newDate isoOnly (js ''2025-03-07'') = Some 1741305600000"
    by (simp add: newDate_def TimeClip_def parse_eval)
  have q: "newDate isoOnly (js ''next week'') = None"
    by (simp add: newDate_def isoOnly_def parse_eval)
  have r: "newDate isoOnly (js ''+010000-01-01'') = Some 253402300800000"
    by (simp add: newDate_def TimeClip_def parse_eval)
  have y: "YearFromDay (1741305600000 div msPerDay) = 2025"
    "YearFromDay (253402300800000 div msPerDay) = 10000"
    by (simp_all add: msPerDay_def YearFromDay_def yearDown.simps DayFromYear_def)
  from normalizeDate_YMD [of isoOnly "js ''2025-03-07''" 1741305600000] p y(1)
    sample_date [of isoOnly]
  have a: "isYMD (js ''2025-03-07'')" by simp
  from normalizeDate_YMD [of isoOnly "js ''next week''"] q
  have b: "normalizeDate isoOnly (js ''next week'') = Inl InvalidEventDate" by blast
  from normalizeDate_YMD [of isoOnly "js ''+010000-01-01''" 253402300800000] r y(2)
    far_future_date [of isoOnly]
  have c: "\<not> isYMD (js ''+010000-01-01'')" by simp
  from a b c sample_date [of isoOnly] far_future_date [of isoOnly] show ?thesis by blast
qed

section \<open>The stored date and time\<close>

lemma event_date_stored:
  assumes ok: "eventPreSave U P d = Inr d'" and m: "isModified d Date \<or> isNew d"
  shows "\<exists>raw t. strPath d Date = Some raw \<and> newDate P (trim raw) = Some t \<and>
           strPath d' Date = Some (beforeT (toISOString t))"
proof -
  from eventPreSave_Inr [OF ok] obtain d1 d2 d3 where
    s: "trimFields requiredStringFields d = Inr d1" "slugStep U d1 = Inr d2"
       "dateStep P d2 = Inr d3" "timeStep d3 = Inr d'" by blast
  have t: "Date \<in> set requiredStringFields" by (simp add: requiredStringFields_def)
  from trimFields_Inr [OF s(1)] t obtain raw where
    raw: "strPath d Date = Some raw" "strPath d1 Date = Some (trim raw)" by blast
  have "isModified d1 Date" using trimFields_Inr [OF s(1)] t m by blast
  then have d2: "strPath d2 Date = Some (trim raw)" "isModified d2 Date"
    using slugStep_Inr [OF s(2)] raw by simp_all
  with dateStep_Inr [OF s(3)] obtain n where
    n: "normalizeDate P (trim raw) = Inr n" "strPath d3 Date = Some n" by auto
  from n(1) obtain t where t: "newDate P (trim raw) = Some t" "n = beforeT (toISOString t)"
    by (auto simp: normalizeDate_def split: option.splits)
  have "strPath d' Date = Some n" using timeStep_Inr [OF s(4)] n(2) by simp
  with raw t show ?thesis by blast
qed

lemma event_date_refused:
  assumes m: "isModified d Date \<or> isNew d" and raw: "strPath d Date = Some raw"
    and bad: "newDate P (trim raw) = None"
  shows "\<exists>e. eventPreSave U P d = Inl e"
proof (cases "eventPreSave U P d")
  case (Inl e)
  then show ?thesis by blast
next
  case (Inr d')
  from event_date_stored [OF Inr m] raw bad show ?thesis by simp
qed

lemma event_time_refused:
  assumes m: "isModified d Time \<or> isNew d" and raw: "strPath d Time = Some raw"
    and bad: "\<not> rxTest timeRegex (trim raw) \<or> 23 < toNumber (hoursGroup (trim raw)) \<or>
              59 < toNumber (minutesGroup (trim raw))"
  shows "\<exists>e. eventPreSave U P d = Inl e"
proof (cases "eventPreSave U P d")
  case (Inl e)
  then show ?thesis by blast
next
  case (Inr d')
  from eventPreSave_Inr [OF Inr] obtain d1 d2 d3 where
    s: "trimFields requiredStringFields d = Inr d1" "slugStep U d1 = Inr d2"
       "dateStep P d2 = Inr d3" "timeStep d3 = Inr d'" by blast
  have t: "Time \<in> set requiredStringFields" by (simp add: requiredStringFields_def)
  from trimFields_Inr [OF s(1)] t raw have
    d1: "strPath d1 Time = Some (trim raw)" "isModified d1 Time" using m by auto
  then have "strPath d3 Time = Some (trim raw)" "isModified d3 Time"
    using slugStep_Inr [OF s(2)] dateStep_Inr [OF s(3)] by simp_all
  with timeStep_Inr [OF s(4)] obtain n where "normalizeTime (trim raw) = Inr n" by auto
  then have "rxTest timeRegex (trim raw) \<and> toNumber (hoursGroup (trim raw)) \<le> 23 \<and>
      toNumber (minutesGroup (trim raw)) \<le> 59"
    by (auto simp: normalizeTime_def Let_def trim_idem split: if_splits)
  with bad show ?thesis by auto
qed

lemma list4: "length s = 4 \<Longrightarrow> s = [s ! 0, s ! 1, s ! 2, s ! 3]"
  by (auto simp: list_eq_iff_nth_eq less_Suc_eq eval_nat_numeral)

lemma list5: "length s = 5 \<Longrightarrow> s = [s ! 0, s ! 1, s ! 2, s ! 3, s ! 4]"
  by (auto simp: list_eq_iff_nth_eq less_Suc_eq eval_nat_numeral)

lemma list7: "length s = 7 \<Longrightarrow> s = [s ! 0, s ! 1, s ! 2, s ! 3, s ! 4, s ! 5, s ! 6]"
  by (auto simp: list_eq_iff_nth_eq less_Suc_eq eval_nat_numeral)

lemma list8: "length s = 8 \<Longrightarrow> s = [s ! 0, s ! 1, s ! 2, s ! 3, s ! 4, s ! 5, s ! 6, s ! 7]"
  by (auto simp: list_eq_iff_nth_eq less_Suc_eq eval_nat_numeral)

lemma len1: "length h = 1 \<Longrightarrow> \<exists>a. h = [a]"
  by (cases h) auto

lemma len2: "length h = 2 \<Longrightarrow> \<exists>a b. h = [a, b]"
  by (cases h; cases "tl h") auto

lemmas time_eval =
  timeRegex_def oneOrTwoDigits_def twoDigits_def digit_def Opt_def Chr_def isDigit_def

lemma timeRegex_shapeI:
  assumes "length h = 1 \<or> length h = 2" "list_all isDigit h" "length m = 2" "list_all isDigit m"
    "t = [] \<or> (\<exists>x. t = [colon] @ x \<and> length x = 2 \<and> list_all isDigit x)"
  shows "rxTest timeRegex (h @ [colon] @ m @ t)"
  unfolding timeRegex_shape using assms by blast

lemma timeRegex_forms:
  "rxTest timeRegex s \<longleftrightarrow>
     listedTimeForm s \<or>
     (length s = 7 \<and> isDigit (s ! 0) \<and> s ! 1 = colon \<and> isDigit (s ! 2) \<and> isDigit (s ! 3) \<and>
      s ! 4 = colon \<and> isDigit (s ! 5) \<and> isDigit (s ! 6))"
  (is "?L \<longleftrightarrow> ?A \<or> ?B")
proof
  assume ?L
  then obtain h m t where
    s: "s = h @ [colon] @ m @ t" and h: "length h = 1 \<or> length h = 2" "list_all isDigit h"
    and m: "length m = 2" "list_all isDigit m"
    and t: "t = [] \<or> (\<exists>x. t = [colon] @ x \<and> length x = 2 \<and> list_all isDigit x)"
    unfolding timeRegex_shape by blast
  from m obtain c d where md: "m = [c, d]" "isDigit c" "isDigit d"
    using len2 [of m] by auto
  from t consider (short) "t = []" | (long) e f where "t = [colon, e, f]" "isDigit e" "isDigit f"
    using len2 by fastforce
  then show "?A \<or> ?B"
  proof cases
    case short
    from h(1) show ?thesis
    proof
      assume "length h = 1"
      then obtain a where "h = [a]" using len1 by blast
      with h(2) s md short show ?thesis by (simp add: listedTimeForm_def)
    next
      assume "length h = 2"
      then obtain a b where "h = [a, b]" using len2 by blast
      with h(2) s md short show ?thesis by (simp add: listedTimeForm_def)
    qed
  next
    case long
    from h(1) show ?thesis
    proof
      assume "length h = 1"
      then obtain a where "h = [a]" using len1 by blast
      with h(2) s md long show ?thesis by simp
    next
      assume "length h = 2"
      then obtain a b where "h = [a, b]" using len2 by blast
      with h(2) s md long show ?thesis by (simp add: listedTimeForm_def)
    qed
  qed
next
  assume "?A \<or> ?B"
  then consider
      (f4) "length s = 4" "isDigit (s ! 0)" "s ! 1 = colon" "isDigit (s ! 2)" "isDigit (s ! 3)"
    | (f5) "length s = 5" "isDigit (s ! 0)" "isDigit (s ! 1)" "s ! 2 = colon" "isDigit (s ! 3)"
        "isDigit (s ! 4)"
    | (f8) "length s = 8" "isDigit (s ! 0)" "isDigit (s ! 1)" "s ! 2 = colon" "isDigit (s ! 3)"
        "isDigit (s ! 4)" "s ! 5 = colon" "isDigit (s ! 6)" "isDigit (s ! 7)"
    | (f7) "length s = 7" "isDigit (s ! 0)" "s ! 1 = colon" "isDigit (s ! 2)" "isDigit (s ! 3)"
        "s ! 4 = colon" "isDigit (s ! 5)" "isDigit (s ! 6)"
    unfolding listedTimeForm_def by blast
  then show ?L
  proof cases
    case f4
    have "s = [s ! 0] @ [colon] @ [s ! 2, s ! 3] @ []"
      using list4 [OF f4(1)] f4(3) by simp
    moreover have "rxTest timeRegex ([s ! 0] @ [colon] @ [s ! 2, s ! 3] @ [])"
      by (rule timeRegex_shapeI) (use f4 in simp_all)
    ultimately show ?thesis by simp
  next
    case f5
    have "s = [s ! 0, s ! 1] @ [colon] @ [s ! 3, s ! 4] @ []"
      using list5 [OF f5(1)] f5(4) by simp
    moreover have "rxTest timeRegex ([s ! 0, s ! 1] @ [colon] @ [s ! 3, s ! 4] @ [])"
      by (rule timeRegex_shapeI) (use f5 in simp_all)
    ultimately show ?thesis by simp
  next
    case f8
    have "s = [s ! 0, s ! 1] @ [colon] @ [s ! 3, s ! 4] @ [colon, s ! 6, s ! 7]"
      using list8 [OF f8(1)] f8(4,7) by simp
    moreover have "rxTest timeRegex ([s ! 0, s ! 1] @ [colon] @ [s ! 3, s ! 4] @ [colon, s ! 6, s ! 7])"
      by (rule timeRegex_shapeI) (use f8 in simp_all)
    ultimately show ?thesis by simp
  next
    case f7
    have "s = [s ! 0] @ [colon] @ [s ! 2, s ! 3] @ [colon, s ! 5, s ! 6]"
      using list7 [OF f7(1)] f7(3,6) by simp
    moreover have "rxTest timeRegex ([s ! 0] @ [colon] @ [s ! 2, s ! 3] @ [colon, s ! 5, s ! 6])"
      by (rule timeRegex_shapeI) (use f7 in simp_all)
    ultimately show ?thesis by simp
  qed
qed

lemma seconds_time: "normalizeTime (js ''9:05:30'') = Inr (js ''09:05'')"
  by (simp add: js_def trim_def isWhiteSpace_def isDigit_def normalizeTime_def timeRegex_def
      oneOrTwoDigits_def twoDigits_def digit_def Opt_def Chr_def hoursGroup_def minutesGroup_def
      toNumber_def padStart_def Let_def natToString.simps)

lemma more_trim:
  "trim (js ''9:05:30'') = js ''9:05:30''"
  "trim (js ''9.30'') = js ''9.30''"
  "trim (js ''next week'') = js ''next week''"
  by (simp_all add: js_def trim_def isWhiteSpace_def)

text \<open>
  Claim C2, as it is written: a time that does not match \<open>H:mm\<close>, \<open>HH:mm\<close> or
  \<open>HH:mm:ss\<close> makes the save fail. The expression of \<open>normalizeTime\<close> takes one or two
  digits for the hours whether seconds follow or not: the time '9:05:30' is of none of
  the three forms, and the sample Event with that time is saved, with the time '09:05'.
\<close>

theorem time_with_seconds_counterexample:
  "\<not> listedTimeForm (js ''9:05:30'') \<and>
   (case eventPreSave plainTable isoOnly
           (sampleEvent\<lparr>strPath := sampleFields(Time \<mapsto> js ''9:05:30'')\<rparr>) of
      Inl e \<Rightarrow> False
    | Inr d' \<Rightarrow> strPath d' Time = Some (js ''09:05''))"
proof -
  have "\<not> listedTimeForm (js ''9:05:30'')"
    by (simp add: listedTimeForm_def js_def)
  moreover have "case eventPreSave plainTable isoOnly
           (sampleEvent\<lparr>strPath := sampleFields(Time \<mapsto> js ''9:05:30'')\<rparr>) of
      Inl e \<Rightarrow> False
    | Inr d' \<Rightarrow> strPath d' Time = Some (js ''09:05'')"
    by (simp add: hook_eval more_trim seconds_time)
  ultimately show ?thesis by blast
qed

text \<open>
  Claim C2, amended. After a save that goes through, a time that was set or modified at
  save time (the path is marked as modified, or the Event is new), or that was of the
  form \<open>HH:mm\<close> already, is stored in the form \<open>HH:mm\<close> with hours 00 to 23 and minutes
  00 to 59; a date that was set or modified at save time is stored as the UTC date part
  that \<open>toISOString\<close> writes for the parsed date, which is of the form \<open>YYYY-MM-DD\<close>
  when its year is from 0 to 9999. A date that is set or modified and does not parse to
  a valid date makes the save fail with an error, and so does a time that is set or
  modified and does not match the expression of \<open>normalizeTime\<close> or has hours beyond 23
  or minutes beyond 59; the strings that match the expression are those of the forms
  \<open>H:mm\<close>, \<open>HH:mm\<close>, \<open>HH:mm:ss\<close> and \<open>H:mm:ss\<close>.
\<close>

theorem stored_date_time_normalized:
  "(eventPreSave U P d = Inr d' \<and>
    (isModified d Time \<or> isNew d \<or> (\<exists>v. strPath d Time = Some v \<and> isHHmm v)) \<longrightarrow>
      (\<exists>n. strPath d' Time = Some n \<and> isHHmm n)) \<and>
   (eventPreSave U P d = Inr d' \<and> (isModified d Date \<or> isNew d) \<longrightarrow>
      (\<exists>raw t. strPath d Date = Some raw \<and> newDate P (trim raw) = Some t \<and>
         strPath d' Date = Some (beforeT (toISOString t)) \<and>
         (0 \<le> YearFromDay (t div msPerDay) \<and> YearFromDay (t div msPerDay) \<le> 9999 \<longrightarrow>
            isYMD (beforeT (toISOString t))))) \<and>
   ((isModified d Date \<or> isNew d) \<and> strPath d Date = Some raw \<and> newDate P (trim raw) = None \<longrightarrow>
      (\<exists>e. eventPreSave U P d = Inl e)) \<and>
   ((isModified d Time \<or> isNew d) \<and> strPath d Time = Some raw \<and>
    (\<not> rxTest timeRegex (trim raw) \<or> 23 < toNumber (hoursGroup (trim raw)) \<or>
     59 < toNumber (minutesGroup (trim raw))) \<longrightarrow>
      (\<exists>e. eventPreSave U P d = Inl e)) \<and>
   (rxTest timeRegex s \<longleftrightarrow>
      listedTimeForm s \<or>
      (length s = 7 \<and> isDigit (s ! 0) \<and> s ! 1 = colon \<and> isDigit (s ! 2) \<and> isDigit (s ! 3) \<and>
       s ! 4 = colon \<and> isDigit (s ! 5) \<and> isDigit (s ! 6)))"
proof -
  have a: "\<exists>n. strPath d' Time = Some n \<and> isHHmm n"
    if "eventPreSave U P d = Inr d' \<and>
        (isModified d Time \<or> isNew d \<or> (\<exists>v. strPath d Time = Some v \<and> isHHmm v))"
    using that event_time_stored [of U P d d'] by blast
  have b: "\<exists>raw t. strPath d Date = Some raw \<and> newDate P (trim raw) = Some t \<and>
         strPath d' Date = Some (beforeT (toISOString t)) \<and>
         (0 \<le> YearFromDay (t div msPerDay) \<and> YearFromDay (t div msPerDay) \<le> 9999 \<longrightarrow>
            isYMD (beforeT (toISOString t)))"
    if "eventPreSave U P d = Inr d' \<and> (isModified d Date \<or> isNew d)"
    using that event_date_stored [of U P d d'] written_date_form by blast
  have c: "\<exists>e. eventPreSave U P d = Inl e"
    if "(isModified d Date \<or> isNew d) \<and> strPath d Date = Some raw \<and> newDate P (trim raw) = None"
    using that event_date_refused [of d raw P U] by blast
  have e: "\<exists>e. eventPreSave U P d = Inl e"
    if "(isModified d Time \<or> isNew d) \<and> strPath d Time = Some raw \<and>
        (\<not> rxTest timeRegex (trim raw) \<or> 23 < toNumber (hoursGroup (trim raw)) \<or>
         59 < toNumber (minutesGroup (trim raw)))"
    using that event_time_refused [of d raw U P] by blast
  from a b c e timeRegex_forms [of s] show ?thesis by blast
qed

lemma refused_samples:
  "normalizeTime (js ''9.30'') = Inl InvalidTimeFormat"
  "normalizeDate isoOnly (js ''next week'') = Inl InvalidEventDate"
  by (simp_all add: js_def trim_def isWhiteSpace_def normalizeTime_def time_eval
      normalizeDate_def newDate_def isoOnly_def parse_eval)

lemma sample_day:
  "newDate isoOnly (js ''2025-03-07'') = Some 1741305600000"
  "YearFromDay (1741305600000 div msPerDay) = 2025"
  by (simp_all add: newDate_def TimeClip_def parse_eval YearFromDay_def yearDown.simps)

theorem stored_date_time_normalized_witness:
  "(\<exists>d'. eventPreSave plainTable isoOnly sampleEvent = Inr d' \<and>
         strPath d' Time = Some (js ''09:05'') \<and> isHHmm (js ''09:05'') \<and>
         strPath d' Date = Some (js ''2025-03-07'') \<and> isYMD (js ''2025-03-07'')) \<and>
   eventPreSave plainTable isoOnly (sampleEvent\<lparr>strPath := sampleFields(Date \<mapsto> js ''next week'')\<rparr>) =
     Inl InvalidEventDate \<and>
   eventPreSave plainTable isoOnly (sampleEvent\<lparr>strPath := sampleFields(Time \<mapsto> js ''9.30'')\<rparr>) =
     Inl InvalidTimeFormat \<and>
   rxTest timeRegex (js ''9:05:30'')"
proof -
  from sample_saved [of isoOnly] obtain d' where
    ok: "eventPreSave plainTable isoOnly sampleEvent = Inr d'"
      and tm: "strPath d' Time = Some (js ''09:05'')"
      and dt: "strPath d' Date = Some (js ''2025-03-07'')"
    by (cases "eventPreSave plainTable isoOnly sampleEvent") auto
  have new: "isNew sampleEvent" by (simp add: sampleEvent_def)
  note T = stored_date_time_normalized
    [where U = plainTable and P = isoOnly and d = sampleEvent and d' = d'
       and s = "js ''9:05:30''"]
  note T1 = T [THEN conjunct1]
  note T2 = T [THEN conjunct2, THEN conjunct1]
  note T5 = T [THEN conjunct2, THEN conjunct2, THEN conjunct2, THEN conjunct2]
  from T1 ok new obtain n where "strPath d' Time = Some n" "isHHmm n" by blast
  with tm have hh: "isHHmm (js ''09:05'')" by simp
  from T2 ok new obtain raw t where
    r: "strPath sampleEvent Date = Some raw" "newDate isoOnly (trim raw) = Some t"
       "strPath d' Date = Some (beforeT (toISOString t))"
       "0 \<le> YearFromDay (t div msPerDay) \<and> YearFromDay (t div msPerDay) \<le> 9999 \<longrightarrow>
          isYMD (beforeT (toISOString t))"
    by blast
  from r(1) have "raw = js ''2025-03-07''" by (simp add: sampleEvent_def)
  with r(2) have "t = 1741305600000" by (simp add: sample_trim sample_day)
  with r(4) have "isYMD (beforeT (toISOString t))" by (simp add: sample_day)
  with r(3) dt have ymd: "isYMD (js ''2025-03-07'')" by simp
  have "length (js ''9:05:30'') = 7 \<and> isDigit (js ''9:05:30'' ! 0) \<and> js ''9:05:30'' ! 1 = colon \<and>
       isDigit (js ''9:05:30'' ! 2) \<and> isDigit (js ''9:05:30'' ! 3) \<and> js ''9:05:30'' ! 4 = colon \<and>
       isDigit (js ''9:05:30'' ! 5) \<and> isDigit (js ''9:05:30'' ! 6)"
    by (simp add: js_def isDigit_def)
  with T5 have rx: "rxTest timeRegex (js ''9:05:30'')" by (rule_tac iffD2) (assumption, rule disjI2)
  have bd: "eventPreSave plainTable isoOnly
      (sampleEvent\<lparr>strPath := sampleFields(Date \<mapsto> js ''next week'')\<rparr>) = Inl InvalidEventDate"
    by (simp add: hook_eval more_trim refused_samples)
  have bt: "eventPreSave plainTable isoOnly
      (sampleEvent\<lparr>strPath := sampleFields(Time \<mapsto> js ''9.30'')\<rparr>) = Inl InvalidTimeFormat"
    by (simp add: hook_eval more_trim refused_samples)
  show ?thesis
    apply (intro conjI exI [where x = d'])
    apply (rule ok, rule tm, rule hh, rule dt, rule ymd, rule bd, rule bt, rule rx)
    done
qed

text \<open>
  A date beyond the year 9999. ECMAScript reads '+010000-01-01' as 1 January of the year
  10000, and \<open>toISOString\<close> writes a year outside 0 to 9999 with a sign and six digits:
  the Event with that date is saved, and the date it stores is not of the form
  \<open>YYYY-MM-DD\<close> that the comments of the source give for the stored date.
\<close>

theorem far_future_date_stored:
  "(case eventPreSave plainTable isoOnly farFutureEvent of
      Inl e \<Rightarrow> False
    | Inr d' \<Rightarrow> strPath d' Date = Some (js ''+010000-01-01'')) \<and>
   \<not> isYMD (js ''+010000-01-01'')"
  using far_future_saved [of isoOnly]
  by (cases "eventPreSave plainTable isoOnly farFutureEvent") (simp_all add: isYMD_def js_def)
section \<open>The Booking model: the email format\<close>

lemma emailRegex_shape:
  "rxTest emailRegex s \<longleftrightarrow>
   (\<exists>l d t. s = l @ [atSign] @ d @ [dot] @ t \<and> l \<noteq> [] \<and> d \<noteq> [] \<and> t \<noteq> [] \<and>
      list_all notSpaceOrAt l \<and> list_all notSpaceOrAt d \<and> list_all notSpaceOrAt t)"
proof -
  let ?A = "{w. w \<noteq> [] \<and> list_all notSpaceOrAt w}"
  have "lang emailRegex = conc ?A (conc {[atSign]} (conc ?A (conc {[dot]} ?A)))"
    by (simp add: emailRegex_def lang_Plus_class lang_Chr)
  then have "rxTest emailRegex s \<longleftrightarrow>
      (\<exists>l r1. s = l @ r1 \<and> l \<in> ?A \<and>
        (\<exists>a r2. r1 = a @ r2 \<and> a \<in> {[atSign]} \<and>
          (\<exists>d r3. r2 = d @ r3 \<and> d \<in> ?A \<and>
            (\<exists>b t. r3 = b @ t \<and> b \<in> {[dot]} \<and> t \<in> ?A))))"
    by (simp only: rxTest_lang conc_iff)
  also have "\<dots> \<longleftrightarrow>
   (\<exists>l d t. s = l @ [atSign] @ d @ [dot] @ t \<and> l \<noteq> [] \<and> d \<noteq> [] \<and> t \<noteq> [] \<and>
      list_all notSpaceOrAt l \<and> list_all notSpaceOrAt d \<and> list_all notSpaceOrAt t)"
    by (simp only: mem_Collect_eq singleton_iff) blast
  finally show ?thesis .
qed

lemma emailTest_examples:
  "rxTest emailRegex (js ''ada@example.org'')"
  "\<not> rxTest emailRegex (js ''nobody'')"
  "\<not> rxTest emailRegex (js ''a b@example.org'')"
  "\<not> rxTest emailRegex (js ''ada@localhost'')"
  by (simp_all add: js_def emailRegex_def Plus_def Chr_def notSpaceOrAt_def isWhiteSpace_def)

lemma bookingPreSave_invalid:
  "bookingPreSave db b = Inl InvalidEmail \<longleftrightarrow> \<not> rxTest emailRegex (email b)"
  by (auto simp: bookingPreSave_def eventExists_def split: option.splits)

lemma emailRegex_not_empty: "rxTest emailRegex s \<Longrightarrow> s \<noteq> []"
  unfolding emailRegex_shape by auto

lemma validateBooking_cases:
  "email b = [] \<Longrightarrow> validateBooking b = Inl emailRequired"
  "email b \<noteq> [] \<Longrightarrow> \<not> rxTest emailRegex (email b) \<Longrightarrow> validateBooking b = Inl emailInvalid"
  "rxTest emailRegex (email b) \<Longrightarrow> validateBooking b = Inr b"
  using emailRegex_not_empty [of "email b"]
  by (auto simp: validateBooking_def emailValidator_def)

lemma saveBooking_valid:
  "rxTest emailRegex (email b) \<Longrightarrow>
     saveBooking db b =
       (case bookingPreSave db b of
          Inl e \<Rightarrow> (Inl e, db)
        | Inr b' \<Rightarrow> (Inr b', db\<lparr>bookings := bookings db @ [b']\<rparr>))"
  by (simp add: saveBooking_def validateBooking_cases)

lemma bookingPreSave_Inr: "bookingPreSave db b = Inr b' \<Longrightarrow> b' = b"
  by (auto simp: bookingPreSave_def split: if_splits sum.splits)

lemma bookingPreSave_not_validation:
  "bookingPreSave db b \<noteq> Inl (ValidationError n es)"
  by (auto simp: bookingPreSave_def eventExists_def split: option.splits)

lemma saveBooking_Inr:
  assumes "saveBooking db b = (Inr b', db')"
  shows "b' = b \<and> db' = db\<lparr>bookings := bookings db @ [b]\<rparr> \<and> rxTest emailRegex (email b) \<and>
         bookingPreSave db b = Inr b"
proof -
  from assms have v: "validateBooking b = Inr b"
    by (auto simp: saveBooking_def validateBooking_def split: sum.splits if_splits)
  then have r: "rxTest emailRegex (email b)"
    by (auto simp: validateBooking_def emailValidator_def split: if_splits)
  from assms v obtain b1 where "bookingPreSave db b = Inr b1" "b' = b1"
    "db' = db\<lparr>bookings := bookings db @ [b1]\<rparr>"
    by (auto simp: saveBooking_def split: sum.splits)
  with bookingPreSave_Inr [of db b b1] r show ?thesis by simp
qed

lemma bookingPreSave_found: "bookingPreSave db b = Inr b' \<Longrightarrow> events db (eventId b) \<noteq> None"
  by (auto simp: bookingPreSave_def eventExists_def split: if_splits option.splits)

lemma saveBooking_Inl: "fst (saveBooking db b) = Inl e \<Longrightarrow> saveBooking db b = (Inl e, db)"
  by (auto simp: saveBooking_def split: sum.splits)

lemma validation_messages:
  "message emailInvalid = ''Booking validation failed: email: Invalid email address''"
  "message emailRequired =
     ''Booking validation failed: email: Path '' @ [CHR 0x60] @ ''email'' @ [CHR 0x60] @
     '' is required.''"
  by (simp_all add: emailInvalid_def emailRequired_def requiredMessage_def)

text \<open>
  Claim C4, as it is written: saving fails with the error 'Invalid email address'
  exactly when the email does not match the format expression. An email of white space
  only is trimmed to the empty string, which does not match; \<open>required: true\<close> refuses
  it before the validator and the hook are asked, and the error of the save is that of
  the required path, not 'Invalid email address'.
\<close>

theorem booking_empty_email_counterexample:
  "email (newBooking plainTable 5 (js ''  '')) = [] \<and>
   \<not> rxTest emailRegex (email (newBooking plainTable 5 (js ''  ''))) \<and>
   saveBooking \<lparr>events = (\<lambda>i. None)(5 \<mapsto> sampleEvent), bookings = [], outage = None\<rparr>
       (newBooking plainTable 5 (js ''  '')) =
     (Inl (ValidationError ''Booking''
        [(''email'', ''Path '' @ [CHR 0x60] @ ''email'' @ [CHR 0x60] @ '' is required.'')]),
      \<lparr>events = (\<lambda>i. None)(5 \<mapsto> sampleEvent), bookings = [], outage = None\<rparr>) \<and>
   message (ValidationError ''Booking''
        [(''email'', ''Path '' @ [CHR 0x60] @ ''email'' @ [CHR 0x60] @ '' is required.'')]) =
     ''Booking validation failed: email: Path '' @ [CHR 0x60] @ ''email'' @ [CHR 0x60] @
     '' is required.''"
proof -
  have e: "email (newBooking plainTable 5 (js ''  '')) = []"
    by (simp add: newBooking_def js_def trim_def toLowerCase_def asciiLower_def isAsciiUpper_def
        isWhiteSpace_def)
  have n: "\<not> rxTest emailRegex []"
    by (simp add: emailRegex_def Plus_def Chr_def)
  from e n show ?thesis
    by (simp add: saveBooking_def validateBooking_def emailRequired_def requiredMessage_def)
qed

text \<open>
  Claim C4, amended. The email of a Booking is case-normalized: the document takes the
  trimmed lower-case form of the value given, and a save that goes through stores that
  document, so the stored email is that form, has no white space at either end, and has
  no capital ASCII letter left in it (the case tables of Unicode write none). Saving
  fails with an error on the email exactly when the email does not match the format
  expression: with the validation error of the path \<open>email\<close> whose message is 'Invalid
  email address' when the email is not empty, and with the one of a required path when
  it is empty; the database is left as it was. When the email matches, the save goes on
  to the hook and fails with none of these errors. The hook, asked on its own, refuses
  with 'Invalid email address' exactly the emails that do not match. The strings that
  match are those made of a non-empty local part, an at sign, and a domain that is a
  non-empty part, a dot and a non-empty part, no part holding white space or an at sign.
\<close>

theorem booking_email_checked:
  "(saveBooking db (newBooking U i raw) = (Inr b', db') \<longrightarrow>
      eventId b' = i \<and> email b' = trim (toLowerCase U raw) \<and> trim (email b') = email b' \<and>
      db' = db\<lparr>bookings := bookings db @ [b']\<rparr> \<and>
      ((\<forall>pre c post. 0x80 \<le> c \<longrightarrow> \<not> list_ex isAsciiUpper (U pre c post)) \<longrightarrow>
         \<not> list_ex isAsciiUpper (email b'))) \<and>
   (email b \<noteq> [] \<and> \<not> rxTest emailRegex (email b) \<longrightarrow> saveBooking db b = (Inl emailInvalid, db)) \<and>
   (email b = [] \<longrightarrow> saveBooking db b = (Inl emailRequired, db)) \<and>
   (fst (saveBooking db b) = Inl emailInvalid \<or> fst (saveBooking db b) = Inl emailRequired \<longleftrightarrow>
      \<not> rxTest emailRegex (email b)) \<and>
   (rxTest emailRegex (email b) \<longrightarrow>
      fst (saveBooking db b) = bookingPreSave db b \<and> fst (saveBooking db b) \<noteq> Inl InvalidEmail) \<and>
   (bookingPreSave db b = Inl InvalidEmail \<longleftrightarrow> \<not> rxTest emailRegex (email b)) \<and>
   message emailInvalid = ''Booking validation failed: email: Invalid email address'' \<and>
   message emailRequired =
     ''Booking validation failed: email: Path '' @ [CHR 0x60] @ ''email'' @ [CHR 0x60] @
     '' is required.'' \<and>
   message InvalidEmail = ''Invalid email address'' \<and>
   (rxTest emailRegex s \<longleftrightarrow>
      (\<exists>l d t. s = l @ [atSign] @ d @ [dot] @ t \<and> l \<noteq> [] \<and> d \<noteq> [] \<and> t \<noteq> [] \<and>
         list_all notSpaceOrAt l \<and> list_all notSpaceOrAt d \<and> list_all notSpaceOrAt t))"
proof -
  have stored: "eventId b' = i \<and> email b' = trim (toLowerCase U raw) \<and> trim (email b') = email b' \<and>
      db' = db\<lparr>bookings := bookings db @ [b']\<rparr> \<and>
      ((\<forall>pre c post. 0x80 \<le> c \<longrightarrow> \<not> list_ex isAsciiUpper (U pre c post)) \<longrightarrow>
         \<not> list_ex isAsciiUpper (email b'))"
    if ok: "saveBooking db (newBooking U i raw) = (Inr b', db')"
  proof -
    from saveBooking_Inr [OF ok] have b': "b' = newBooking U i raw"
      and db': "db' = db\<lparr>bookings := bookings db @ [b']\<rparr>" by simp_all
    have low: "\<not> list_ex isAsciiUpper (email b')"
      if "\<forall>pre c post. 0x80 \<le> c \<longrightarrow> \<not> list_ex isAsciiUpper (U pre c post)"
    proof -
      have "\<not> list_ex isAsciiUpper (toLowerCase U raw)"
        unfolding toLowerCase_def using that by (rule lowerFrom_small)
      then show ?thesis
        using set_trim [of "toLowerCase U raw"] by (auto simp: b' newBooking_def list_ex_iff)
    qed
    from b' db' low show ?thesis by (simp add: newBooking_def trim_idem)
  qed
  have inv: "saveBooking db b = (Inl emailInvalid, db)"
    if "email b \<noteq> [] \<and> \<not> rxTest emailRegex (email b)"
    using that by (simp add: saveBooking_def validateBooking_cases)
  have req: "saveBooking db b = (Inl emailRequired, db)" if "email b = []"
    using that by (simp add: saveBooking_def validateBooking_cases)
  have val: "fst (saveBooking db b) = bookingPreSave db b \<and>
      fst (saveBooking db b) \<noteq> Inl InvalidEmail \<and>
      fst (saveBooking db b) \<noteq> Inl emailInvalid \<and> fst (saveBooking db b) \<noteq> Inl emailRequired"
    if r: "rxTest emailRegex (email b)"
  proof -
    have f: "fst (saveBooking db b) = bookingPreSave db b"
      by (simp add: saveBooking_valid [OF r] split: sum.splits)
    with r bookingPreSave_invalid [of db b] bookingPreSave_not_validation [of db b]
    show ?thesis by (simp add: emailInvalid_def emailRequired_def)
  qed
  have iff: "fst (saveBooking db b) = Inl emailInvalid \<or> fst (saveBooking db b) = Inl emailRequired \<longleftrightarrow>
      \<not> rxTest emailRegex (email b)"
  proof (cases "rxTest emailRegex (email b)")
    case True
    from val [OF True] True show ?thesis by blast
  next
    case False
    then show ?thesis using inv req by (cases "email b = []") simp_all
  qed
  from stored inv req val iff bookingPreSave_invalid [of db b] emailRegex_shape [of s]
  show ?thesis by (simp only: validation_messages message.simps) blast
qed

theorem booking_email_checked_witness:
  "saveBooking \<lparr>events = (\<lambda>i. None)(5 \<mapsto> sampleEvent), bookings = [], outage = None\<rparr>
       (newBooking plainTable 5 (js ''  Ada@Example.ORG '')) =
     (Inr \<lparr>eventId = 5, email = js ''ada@example.org''\<rparr>,
      \<lparr>events = (\<lambda>i. None)(5 \<mapsto> sampleEvent),
       bookings = [\<lparr>eventId = 5, email = js ''ada@example.org''\<rparr>], outage = None\<rparr>) \<and>
   trim (toLowerCase plainTable (js ''  Ada@Example.ORG '')) = js ''ada@example.org'' \<and>
   \<not> list_ex isAsciiUpper (js ''ada@example.org'') \<and>
   rxTest emailRegex (js ''ada@example.org'') \<and>
   \<not> rxTest emailRegex (js ''nobody'') \<and>
   saveBooking \<lparr>events = (\<lambda>i. None)(5 \<mapsto> sampleEvent), bookings = [], outage = None\<rparr>
       (newBooking plainTable 5 (js ''nobody'')) =
     (Inl emailInvalid,
      \<lparr>events = (\<lambda>i. None)(5 \<mapsto> sampleEvent), bookings = [], outage = None\<rparr>) \<and>
   saveBooking \<lparr>events = (\<lambda>i. None)(5 \<mapsto> sampleEvent), bookings = [], outage = None\<rparr>
       (newBooking plainTable 5 []) =
     (Inl emailRequired,
      \<lparr>events = (\<lambda>i. None)(5 \<mapsto> sampleEvent), bookings = [], outage = None\<rparr>)"
proof -
  let ?db = "\<lparr>events = (\<lambda>i. None)(5 \<mapsto> sampleEvent), bookings = [], outage = None\<rparr>"
  let ?ada = "\<lparr>eventId = 5, email = js ''ada@example.org''\<rparr>"
  have e: "trim (toLowerCase plainTable (js ''  Ada@Example.ORG '')) = js ''ada@example.org''"
    by (simp add: js_def trim_def toLowerCase_def asciiLower_def isAsciiUpper_def isWhiteSpace_def)
  have n: "email (newBooking plainTable 5 (js ''nobody'')) = js ''nobody''"
    by (simp add: newBooking_def js_def trim_def toLowerCase_def asciiLower_def isAsciiUpper_def
        isWhiteSpace_def)
  have z: "email (newBooking plainTable 5 []) = []"
    by (simp add: newBooking_def trim_def toLowerCase_def)
  have t: "\<forall>pre c post. 0x80 \<le> c \<longrightarrow> \<not> list_ex isAsciiUpper (plainTable pre c post)"
    by (simp add: plainTable_def isAsciiUpper_def)
  have s: "saveBooking ?db (newBooking plainTable 5 (js ''  Ada@Example.ORG '')) =
      (Inr ?ada, ?db\<lparr>bookings := bookings ?db @ [?ada]\<rparr>)"
    using emailTest_examples(1)
    by (simp add: saveBooking_def validateBooking_cases bookingPreSave_def eventExists_def
        newBooking_def e)
  note T = booking_email_checked [where db = ?db and U = plainTable and i = 5
      and raw = "js ''  Ada@Example.ORG ''" and b' = ?ada
      and db' = "?db\<lparr>bookings := bookings ?db @ [?ada]\<rparr>"]
  from T [where b = "newBooking plainTable 5 (js ''nobody'')"] s t
  have a: "email ?ada = trim (toLowerCase plainTable (js ''  Ada@Example.ORG ''))"
    and u: "\<not> list_ex isAsciiUpper (email ?ada)" by blast+
  have js_ne: "js ''nobody'' \<noteq> []" by (simp add: js_def)
  from T [where b = "newBooking plainTable 5 (js ''nobody'')"] emailTest_examples(2) js_ne
  have b: "saveBooking ?db (newBooking plainTable 5 (js ''nobody'')) = (Inl emailInvalid, ?db)"
    unfolding n by blast
  from T [where b = "newBooking plainTable 5 []"] z
  have c: "saveBooking ?db (newBooking plainTable 5 []) = (Inl emailRequired, ?db)"
    by blast
  from a u have "trim (toLowerCase plainTable (js ''  Ada@Example.ORG '')) = js ''ada@example.org'' \<and>
      \<not> list_ex isAsciiUpper (js ''ada@example.org'')" by simp
  with s b c emailTest_examples(1,2) show ?thesis by simp
qed
text \<open>
  Claim C3, as it is written: whenever no Event has the \<open>eventId\<close> of the Booking, the
  hook refuses the save with the error 'Referenced event does not exist'. The hook
  checks the email first: a Booking whose email does not match the format is refused
  with 'Invalid email address', whether the Event exists or not.
\<close>

theorem booking_missing_event_counterexample:
  "events \<lparr>events = (\<lambda>i. None), bookings = [], outage = None\<rparr>
     (eventId \<lparr>eventId = 5, email = js ''nobody''\<rparr>) = None \<and>
   bookingPreSave \<lparr>events = (\<lambda>i. None), bookings = [], outage = None\<rparr>
     \<lparr>eventId = 5, email = js ''nobody''\<rparr> = Inl InvalidEmail \<and>
   bookingPreSave \<lparr>events = (\<lambda>i. None), bookings = [], outage = None\<rparr>
     \<lparr>eventId = 5, email = js ''nobody''\<rparr> \<noteq> Inl MissingEvent"
  using emailTest_examples(2) by (simp add: bookingPreSave_def)

text \<open>
  Claim C3, amended. Saving a Booking succeeds only if an Event with its \<open>eventId\<close>
  exists at that time. When no such Event exists the save fails and the database is
  left as it was, so no Booking is persisted; the error is 'Referenced event does not
  exist' when the email matches the format and the lookup itself does not fail. When
  the Event exists, the email matches and the lookup does not fail, the Booking is
  persisted as it is.
\<close>

theorem booking_requires_event:
  "(fst (saveBooking db b) = Inr b' \<longrightarrow> events db (eventId b) \<noteq> None) \<and>
   (events db (eventId b) = None \<longrightarrow> (\<exists>e. saveBooking db b = (Inl e, db))) \<and>
   (events db (eventId b) = None \<and> rxTest emailRegex (email b) \<and> outage db = None \<longrightarrow>
      bookingPreSave db b = Inl MissingEvent \<and> saveBooking db b = (Inl MissingEvent, db)) \<and>
   message MissingEvent = ''Referenced event does not exist'' \<and>
   (events db (eventId b) \<noteq> None \<and> rxTest emailRegex (email b) \<and> outage db = None \<longrightarrow>
      saveBooking db b = (Inr b, db\<lparr>bookings := bookings db @ [b]\<rparr>))"
proof -
  have a: "events db (eventId b) \<noteq> None" if "fst (saveBooking db b) = Inr c" for c
  proof -
    from that obtain db' where "saveBooking db b = (Inr c, db')"
      by (cases "saveBooking db b") simp
    from saveBooking_Inr [OF this] have "bookingPreSave db b = Inr b" by simp
    then show ?thesis by (rule bookingPreSave_found)
  qed
  have b: "\<exists>e. saveBooking db b = (Inl e, db)" if "events db (eventId b) = None"
  proof (cases "fst (saveBooking db b)")
    case (Inl e)
    from saveBooking_Inl [OF Inl] show ?thesis by blast
  next
    case (Inr c)
    from a [OF Inr] that show ?thesis by simp
  qed
  have c: "bookingPreSave db b = Inl MissingEvent \<and> saveBooking db b = (Inl MissingEvent, db)"
    if h: "events db (eventId b) = None \<and> rxTest emailRegex (email b) \<and> outage db = None"
  proof -
    from h have r: "rxTest emailRegex (email b)" by simp
    from h have m: "bookingPreSave db b = Inl MissingEvent"
      by (simp add: bookingPreSave_def eventExists_def)
    then show ?thesis unfolding saveBooking_valid [OF r] by simp
  qed
  have e: "saveBooking db b = (Inr b, db\<lparr>bookings := bookings db @ [b]\<rparr>)"
    if h: "events db (eventId b) \<noteq> None \<and> rxTest emailRegex (email b) \<and> outage db = None"
  proof -
    from h have r: "rxTest emailRegex (email b)" by simp
    from h have m: "bookingPreSave db b = Inr b"
      by (simp add: bookingPreSave_def eventExists_def)
    then show ?thesis unfolding saveBooking_valid [OF r] by simp
  qed
  have msg: "message MissingEvent = ''Referenced event does not exist''" by simp
  show ?thesis
    apply (intro conjI impI)
    subgoal by (rule a)
    subgoal by (rule b)
    subgoal using c by blast
    subgoal using c by blast
    subgoal by (rule msg)
    subgoal by (rule e)
    done
qed

theorem booking_requires_event_witness:
  "saveBooking \<lparr>events = (\<lambda>i. None), bookings = [], outage = None\<rparr>
     \<lparr>eventId = 5, email = js ''ada@example.org''\<rparr> =
     (Inl MissingEvent, \<lparr>events = (\<lambda>i. None), bookings = [], outage = None\<rparr>) \<and>
   saveBooking \<lparr>events = (\<lambda>i. None)(5 \<mapsto> sampleEvent), bookings = [], outage = None\<rparr>
     \<lparr>eventId = 5, email = js ''ada@example.org''\<rparr> =
     (Inr \<lparr>eventId = 5, email = js ''ada@example.org''\<rparr>,
      \<lparr>events = (\<lambda>i. None)(5 \<mapsto> sampleEvent),
       bookings = [\<lparr>eventId = 5, email = js ''ada@example.org''\<rparr>], outage = None\<rparr>)"
  using
    booking_requires_event [of "\<lparr>events = (\<lambda>i. None), bookings = [], outage = None\<rparr>"
      "\<lparr>eventId = 5, email = js ''ada@example.org''\<rparr>"
      "\<lparr>eventId = 5, email = js ''ada@example.org''\<rparr>"]
    booking_requires_event [of "\<lparr>events = (\<lambda>i. None)(5 \<mapsto> sampleEvent), bookings = [], outage = None\<rparr>"
      "\<lparr>eventId = 5, email = js ''ada@example.org''\<rparr>"
      "\<lparr>eventId = 5, email = js ''ada@example.org''\<rparr>"]
    emailTest_examples(1)
  by simp

section \<open>The cache after any run\<close>































end
